theory Spec2Isabelle
  imports Complex_Main
begin

section \<open>Python values\<close>

subsection \<open>Floats\<close>

text \<open>
  A Python \<open>float\<close> is an IEEE-754 binary64 number: a finite number with 53
  significant bits and a binary exponent from -1022 to 1023 (below that, the
  subnormal numbers, multiples of \<open>2^-1074\<close>), a zero of either sign, an infinity of
  either sign, or a not-a-number. \<open>Float x\<close> is the finite float of value \<open>x\<close>, and
  \<open>Float 0\<close> is the positive zero.
\<close>

datatype pyfloat = Float rat | NegZero | PosInf | NegInf | NaN

definition is_finite :: "pyfloat \<Rightarrow> bool" where
  "is_finite a = (case a of Float x \<Rightarrow> True | NegZero \<Rightarrow> True | _ \<Rightarrow> False)"

definition float_value :: "pyfloat \<Rightarrow> rat" where
  "float_value a = (case a of Float x \<Rightarrow> x | _ \<Rightarrow> 0)"

definition sign_bit :: "pyfloat \<Rightarrow> bool" where
  "sign_bit a = (case a of Float x \<Rightarrow> x < 0 | NegZero \<Rightarrow> True | NegInf \<Rightarrow> True | _ \<Rightarrow> False)"

definition is_zero :: "pyfloat \<Rightarrow> bool" where
  "is_zero a = (a = Float 0 \<or> a = NegZero)"

definition signed_zero :: "bool \<Rightarrow> pyfloat" where
  "signed_zero negative = (if negative then NegZero else Float 0)"

definition signed_inf :: "bool \<Rightarrow> pyfloat" where
  "signed_inf negative = (if negative then NegInf else PosInf)"

text \<open>\<open>int.bit_length\<close>: the number of binary digits of a natural number.\<close>

function bit_length :: "nat \<Rightarrow> nat" where
  "bit_length n = (if n = 0 then 0 else Suc (bit_length (n div 2)))"
  by pat_completeness auto
termination
  by (relation "measure id") auto

declare bit_length.simps [simp del]

definition pow2 :: "int \<Rightarrow> rat" where
  "pow2 e = (if 0 \<le> e then 2 ^ nat e else 1 / 2 ^ nat (- e))"

text \<open>For \<open>0 < x\<close>, the integer \<open>e\<close> with \<open>2^e \<le> x < 2^(e+1)\<close>.\<close>

definition floor_log2 :: "rat \<Rightarrow> int" where
  "floor_log2 x =
     (if 1 \<le> x then int (bit_length (nat \<lfloor>x\<rfloor>)) - 1
      else - int (bit_length (nat (\<lceil>1 / x\<rceil> - 1))))"

definition round_half_even :: "rat \<Rightarrow> int" where
  "round_half_even x =
     (let f = \<lfloor>x\<rfloor>; d = x - of_int f
      in if d < 1 / 2 then f
         else if 1 / 2 < d then f + 1
         else if even f then f else f + 1)"

text \<open>
  Rounding to the nearest binary64 value, ties to even, of the number with the
  magnitude \<open>x \<ge> 0\<close> and the given sign. With \<open>2^e \<le> x < 2^(e+1)\<close> the unit in the
  last place is \<open>2^(e - 52)\<close>, and \<open>2^-1074\<close> for \<open>e < -1022\<close> (gradual underflow, down
  to a zero). The rounded significand \<open>m\<close> is at most \<open>2^53\<close>; the result overflows
  to an infinity when it reaches \<open>2^1024\<close>, that is when \<open>1023 < e\<close>, or \<open>e = 1023\<close>
  and \<open>m = 2^53\<close>.
\<close>

definition round_to_float :: "bool \<Rightarrow> rat \<Rightarrow> pyfloat" where
  "round_to_float negative x =
     (if x = 0 then signed_zero negative
      else let e = max (floor_log2 x) (- 1022);
               ulp = pow2 (e - 52);
               m = round_half_even (x / ulp)
           in if 1023 < e \<or> (e = 1023 \<and> m = 2 ^ 53) then signed_inf negative
              else if m = 0 then signed_zero negative
              else Float ((if negative then - 1 else 1) * of_int m * ulp))"

text \<open>The float nearest to a rational number; the float of a decimal literal.\<close>

definition fl :: "rat \<Rightarrow> pyfloat" where
  "fl x = round_to_float (x < 0) \<bar>x\<bar>"

text \<open>
  The numbers with a binary exponent from -1022 to 1022, that is
  \<open>2^-1022 \<le> |x| < 2^1023\<close>: rounding such a number neither overflows nor underflows.
\<close>

definition in_range :: "rat \<Rightarrow> bool" where
  "in_range x = (x \<noteq> 0 \<and> - 1022 \<le> floor_log2 \<bar>x\<bar> \<and> floor_log2 \<bar>x\<bar> \<le> 1022)"

text \<open>
  \<open>a + b\<close>. An exact sum of zero is the positive zero, unless both operands are
  negative zeros.
\<close>

definition fadd :: "pyfloat \<Rightarrow> pyfloat \<Rightarrow> pyfloat" where
  "fadd a b =
     (if a = NaN \<or> b = NaN then NaN
      else if is_finite a \<and> is_finite b then
        (if float_value a + float_value b = 0 then signed_zero (a = NegZero \<and> b = NegZero)
         else fl (float_value a + float_value b))
      else if is_finite b then a
      else if is_finite a then b
      else if a = b then a
      else NaN)"

text \<open>\<open>a * b\<close>. The sign of the product is the exclusive or of the signs; an infinity
  times a zero is not a number.\<close>

definition fmul :: "pyfloat \<Rightarrow> pyfloat \<Rightarrow> pyfloat" where
  "fmul a b =
     (if a = NaN \<or> b = NaN then NaN
      else if is_finite a \<and> is_finite b then
        round_to_float (sign_bit a \<noteq> sign_bit b) \<bar>float_value a * float_value b\<bar>
      else if is_zero a \<or> is_zero b then NaN
      else signed_inf (sign_bit a \<noteq> sign_bit b))"

text \<open>\<open>a / b\<close> for a divisor that is not a zero; on a zero divisor Python raises
  \<open>ZeroDivisionError\<close>, which the caller checks.\<close>

definition fdiv :: "pyfloat \<Rightarrow> pyfloat \<Rightarrow> pyfloat" where
  "fdiv a b =
     (if a = NaN \<or> b = NaN then NaN
      else if is_finite a \<and> is_finite b then
        round_to_float (sign_bit a \<noteq> sign_bit b) \<bar>float_value a / float_value b\<bar>
      else if is_finite a then signed_zero (sign_bit a \<noteq> sign_bit b)
      else if is_finite b then signed_inf (sign_bit a \<noteq> sign_bit b)
      else NaN)"

text \<open>\<open>a <= 0\<close>, which is false for a not-a-number.\<close>

definition le_zero :: "pyfloat \<Rightarrow> bool" where
  "le_zero a = (case a of Float x \<Rightarrow> x \<le> 0 | NegZero \<Rightarrow> True | NegInf \<Rightarrow> True | _ \<Rightarrow> False)"

text \<open>
  The text of \<open>f"{x:.5f}"\<close>. For a finite float it is the decimal with five fractional
  digits nearest to the exact value of \<open>x\<close>, ties to even, with a minus sign when the
  sign bit of \<open>x\<close> is set: \<open>Text5f v\<close> is the text that shows the number \<open>v\<close>, and
  \<open>TextNegZero\<close> is \<open>-0.00000\<close>. For the other floats it is \<open>inf\<close>, \<open>-inf\<close> or \<open>nan\<close>.
  The last constructor is the text of a cell of the results for an element without
  an atomic weight.
\<close>

datatype cell = Text5f rat | TextNegZero | TextInf | TextNegInf | TextNaN | NoAtomicWeightInfo

definition format_5f :: "pyfloat \<Rightarrow> cell" where
  "format_5f a =
     (case a of
        Float x \<Rightarrow>
          (let v = of_int (round_half_even (\<bar>x\<bar> * 100000)) / 100000
           in if x < 0 then (if v = 0 then TextNegZero else Text5f (- v)) else Text5f v)
      | NegZero \<Rightarrow> TextNegZero
      | PosInf \<Rightarrow> TextInf
      | NegInf \<Rightarrow> TextNegInf
      | NaN \<Rightarrow> TextNaN)"

text \<open>The number a cell shows, when it shows one.\<close>

definition shown_value :: "cell \<Rightarrow> rat option" where
  "shown_value c = (case c of Text5f v \<Rightarrow> Some v | TextNegZero \<Rightarrow> Some 0 | _ \<Rightarrow> None)"

subsection \<open>Exceptions\<close>

datatype py_error = IndexError | ValueError | KeyError string | ZeroDivisionError

subsection \<open>Dictionaries\<close>

text \<open>
  A \<open>dict\<close> keeps its keys in insertion order: it is an association list with distinct
  keys. \<open>d.get(k, 0)\<close> is \<open>dict_get\<close>; the assignment \<open>d[k] = v\<close> is \<open>dict_set\<close>, which
  keeps the position of a key already present and appends a new key at the end.
\<close>

type_synonym 'v dict = "(string \<times> 'v) list"

definition dict_get :: "pyfloat dict \<Rightarrow> string \<Rightarrow> pyfloat" where
  "dict_get d k = (case map_of d k of Some v \<Rightarrow> v | None \<Rightarrow> Float 0)"

fun dict_set :: "'v dict \<Rightarrow> string \<Rightarrow> 'v \<Rightarrow> 'v dict" where
  "dict_set [] k v = [(k, v)]"
| "dict_set ((k', v') # d) k v =
     (if k' = k then (k, v) # d else (k', v') # dict_set d k v)"

section \<open>Tokens: the regular expression of \<open>parse_formula\<close>\<close>

text \<open>
  \<open>matches = re.findall(r"([A-Z][a-z]?|\d*\.?\d+|\(|\))", formula)\<close>.
  Characters are 8-bit, where \<open>\d\<close> is \<open>[0-9]\<close>. Each matcher returns the length of the
  match of one alternative at the start of the string, \<open>0\<close> when it does not match
  (no alternative matches the empty string).
\<close>

definition is_upper :: "char \<Rightarrow> bool" where
  "is_upper c = (c \<in> set ''ABCDEFGHIJKLMNOPQRSTUVWXYZ'')"

definition is_lower :: "char \<Rightarrow> bool" where
  "is_lower c = (c \<in> set ''abcdefghijklmnopqrstuvwxyz'')"

definition is_digit :: "char \<Rightarrow> bool" where
  "is_digit c = (c \<in> set ''0123456789'')"

text \<open>\<open>[A-Z][a-z]?\<close>\<close>

definition match_symbol :: "string \<Rightarrow> nat" where
  "match_symbol s =
     (case s of
        [] \<Rightarrow> 0
      | c # cs \<Rightarrow>
          if is_upper c
          then (case cs of [] \<Rightarrow> 1 | d # _ \<Rightarrow> if is_lower d then 2 else 1)
          else 0)"

text \<open>\<open>\d*\.?\d+\<close>: the leading digits, then a point and more digits when a digit
  follows the point; without that, backtracking leaves the leading digits alone.\<close>

definition match_number :: "string \<Rightarrow> nat" where
  "match_number s =
     (let n = length (takeWhile is_digit s)
      in case drop n s of
           [] \<Rightarrow> n
         | c # r \<Rightarrow>
             if c = CHR ''.'' \<and> (case r of [] \<Rightarrow> False | d # _ \<Rightarrow> is_digit d)
             then n + 1 + length (takeWhile is_digit r)
             else n)"

text \<open>\<open>\(|\)\<close>\<close>

definition match_bracket :: "string \<Rightarrow> nat" where
  "match_bracket s =
     (case s of [] \<Rightarrow> 0 | c # _ \<Rightarrow> if c = CHR ''('' \<or> c = CHR '')'' then 1 else 0)"

definition match_token :: "string \<Rightarrow> nat" where
  "match_token s =
     (if 0 < match_symbol s then match_symbol s
      else if 0 < match_number s then match_number s
      else match_bracket s)"

text \<open>\<open>re.findall\<close>: the matches from left to right; a character at which nothing
  matches is passed over.\<close>

fun findall :: "string \<Rightarrow> string list" where
  "findall s =
     (if s = [] then []
      else let n = match_token s
           in if 0 < n then take n s # findall (drop n s) else findall (tl s))"

declare findall.simps [simp del]

text \<open>\<open>float(token)\<close> on a decimal literal (digits with at most one point); on other
  text the model raises \<open>ValueError\<close>.\<close>

definition digit_value :: "char \<Rightarrow> nat" where
  "digit_value c = of_char c - 48"

definition digits_value :: "string \<Rightarrow> nat" where
  "digits_value ds = foldl (\<lambda>a c. 10 * a + digit_value c) 0 ds"

definition float_py :: "string \<Rightarrow> py_error + pyfloat" where
  "float_py t =
     (let ip = takeWhile is_digit t
      in case dropWhile is_digit t of
           [] \<Rightarrow> if ip = [] then Inl ValueError else Inr (fl (of_nat (digits_value ip)))
         | c # fp \<Rightarrow>
             if c = CHR ''.'' \<and> list_all is_digit fp \<and> \<not> (ip = [] \<and> fp = [])
             then Inr (fl (of_nat (digits_value ip)
                           + of_nat (digits_value fp) / 10 ^ length fp))
             else Inl ValueError)"

section \<open>\<open>parse_formula\<close>\<close>

text \<open>
  The stack of groups is a list whose head is the top of the stack: \<open>stack[-1]\<close> is
  the head, \<open>stack.append\<close> conses, \<open>stack.pop()\<close> removes the head, and \<open>stack[0]\<close>
  is the last element.
\<close>

type_synonym group = "pyfloat dict"

text \<open>\<open>stack[-1][elem] = stack[-1].get(elem, 0) + x\<close>\<close>

definition add_entry :: "group list \<Rightarrow> string \<Rightarrow> pyfloat \<Rightarrow> py_error + group list" where
  "add_entry stack elem x =
     (case stack of
        [] \<Rightarrow> Inl IndexError
      | cur # below \<Rightarrow> Inr (dict_set cur elem (fadd (dict_get cur elem) x) # below))"

text \<open>The loop \<open>for elem, cnt in group.items(): ...\<close> that merges a closed group into
  the new top of the stack.\<close>

fun merge_group :: "group \<Rightarrow> pyfloat \<Rightarrow> group list \<Rightarrow> py_error + group list" where
  "merge_group [] multiplier stack = Inr stack"
| "merge_group ((elem, cnt) # items) multiplier stack =
     (case add_entry stack elem (fmul cnt multiplier) of
        Inl e \<Rightarrow> Inl e
      | Inr stack' \<Rightarrow> merge_group items multiplier stack')"

text \<open>
  The \<open>while i < len(matches)\<close> loop, on the tokens from index \<open>i\<close> on. In the
  close-bracket branch \<open>i\<close> is incremented before the multiplier is read and once more
  at the end of the loop body, so the loop continues two tokens after the bracket.
\<close>

fun parse_loop :: "group list \<Rightarrow> string list \<Rightarrow> py_error + group list" where
  "parse_loop stack [] = Inr stack"
| "parse_loop stack (token # rest) =
     (if token = ''('' then parse_loop ([] # stack) rest
      else if token = '')'' then
        (case (case rest of
                 [] \<Rightarrow> Inr (Float 1)
               | nxt # _ \<Rightarrow> if 0 < match_number nxt then float_py nxt else Inr (Float 1)) of
           Inl e \<Rightarrow> Inl e
         | Inr multiplier \<Rightarrow>
             (case stack of
                [] \<Rightarrow> Inl IndexError
              | popped # stack' \<Rightarrow>
                  (case merge_group popped multiplier stack' of
                     Inl e \<Rightarrow> Inl e
                   | Inr stack'' \<Rightarrow> parse_loop stack'' (drop 1 rest))))
      else if 0 < match_symbol token then
        (case rest of
           [] \<Rightarrow>
             (case add_entry stack token (Float 1) of
                Inl e \<Rightarrow> Inl e
              | Inr stack' \<Rightarrow> parse_loop stack' [])
         | nxt # rest' \<Rightarrow>
             if 0 < match_number nxt
             then (case float_py nxt of
                     Inl e \<Rightarrow> Inl e
                   | Inr count \<Rightarrow>
                       (case add_entry stack token count of
                          Inl e \<Rightarrow> Inl e
                        | Inr stack' \<Rightarrow> parse_loop stack' rest'))
             else (case add_entry stack token (Float 1) of
                     Inl e \<Rightarrow> Inl e
                   | Inr stack' \<Rightarrow> parse_loop stack' (nxt # rest')))
      else parse_loop stack rest)"

definition parse_formula :: "string \<Rightarrow> py_error + group" where
  "parse_formula formula =
     (case parse_loop [[]] (findall formula) of
        Inl e \<Rightarrow> Inl e
      | Inr stack \<Rightarrow> (case stack of [] \<Rightarrow> Inl IndexError | _ # _ \<Rightarrow> Inr (last stack)))"

section \<open>The handlers of \<open>main\<close>\<close>

text \<open>
  The Enter button: \<open>parse_formula\<close> runs inside \<open>try\<close>; its result is stored in
  \<open>st.session_state["composition"]\<close> (the field \<open>session_composition\<close>), and on an
  exception the session state is left as it was (the message shown is not part of the
  state).
\<close>

record session_state =
  session_composition :: "group option"

definition enter_button :: "session_state \<Rightarrow> string \<Rightarrow> session_state" where
  "enter_button st formula =
     (case parse_formula formula of
        Inl e \<Rightarrow> st
      | Inr c \<Rightarrow> st\<lparr>session_composition := Some c\<rparr>)"

text \<open>
  The Calculate button. It ends in one of the two messages of \<open>st.error\<close> (the mass is
  not a valid number of grams; no atomic weight for the selected element), in an
  exception that nothing catches, or in the table \<open>results\<close>. A cell of the table is the
  text of \<open>f"{required:.5f}"\<close> or the text that says there is no atomic weight.
  The mass is the float that \<open>st.number_input\<close> returns.
  \<open>get_atomic_weight\<close> is the lookup of the \<open>periodictable\<close> library, which is not
  part of the repository: it is a parameter, \<open>None\<close> where the library has no mass.
\<close>

datatype calc_error =
    ErrorInvalidMass
  | ErrorNoAtomicWeight string
  | Uncaught py_error

text \<open>\<open>required = atomic_weight * coeff * factor\<close>\<close>

definition required_mass :: "pyfloat \<Rightarrow> pyfloat \<Rightarrow> pyfloat \<Rightarrow> pyfloat" where
  "required_mass atomic_weight coeff factor = fmul (fmul atomic_weight coeff) factor"

text \<open>The body of the loop over \<open>composition.items()\<close>; \<open>if atomic_weight:\<close> is false
  for \<open>None\<close> and for a zero of either sign.\<close>

definition result_cell :: "(string \<Rightarrow> pyfloat option) \<Rightarrow> pyfloat \<Rightarrow> string \<Rightarrow> pyfloat \<Rightarrow> cell" where
  "result_cell get_atomic_weight factor elem coeff =
     (case get_atomic_weight elem of
        None \<Rightarrow> NoAtomicWeightInfo
      | Some atomic_weight \<Rightarrow>
          if is_zero atomic_weight then NoAtomicWeightInfo
          else format_5f (required_mass atomic_weight coeff factor))"

definition calculate ::
  "(string \<Rightarrow> pyfloat option) \<Rightarrow> group \<Rightarrow> string \<Rightarrow> pyfloat \<Rightarrow> calc_error + cell dict" where
  "calculate get_atomic_weight composition selected_elem mass =
     (if le_zero mass then Inl ErrorInvalidMass
      else case get_atomic_weight selected_elem of
        None \<Rightarrow> Inl (ErrorNoAtomicWeight selected_elem)
      | Some base_weight \<Rightarrow>
          (case map_of composition selected_elem of
             None \<Rightarrow> Inl (Uncaught (KeyError selected_elem))
           | Some coeff \<Rightarrow>
               let base_mass = fmul base_weight coeff
               in if is_zero base_mass then Inl (Uncaught ZeroDivisionError)
                  else let factor = fdiv mass base_mass
                       in Inr (fold (\<lambda>(elem, coeff) results.
                                       dict_set results elem
                                         (result_cell get_atomic_weight factor elem coeff))
                                 composition [])))"

section \<open>Every numeric token is a decimal literal\<close>

text \<open>
  \<open>float\<close> is applied to a token that \<open>re.match(r"\d*\.?\d+", token)\<close> accepts. Such a
  token of \<open>findall\<close> is a whole decimal literal, so \<open>float\<close> never raises on it.
\<close>

lemma upper_not_number: "is_upper c \<Longrightarrow> \<not> is_digit c \<and> c \<noteq> CHR ''.''"
  by (auto simp: is_upper_def is_digit_def)

lemma dot_not_digit: "\<not> is_digit CHR ''.''"
  by (simp add: is_digit_def)

lemma bracket_not_number: "c = CHR ''('' \<or> c = CHR '')'' \<Longrightarrow> \<not> is_digit c \<and> c \<noteq> CHR ''.''"
  by (auto simp: is_digit_def)

lemma match_number_hd: "\<not> is_digit c \<Longrightarrow> c \<noteq> CHR ''.'' \<Longrightarrow> match_number (c # cs) = 0"
  by (simp add: match_number_def)

lemma float_py_digits:
  "ds \<noteq> [] \<Longrightarrow> list_all is_digit ds \<Longrightarrow> \<exists>x. float_py ds = Inr x"
proof -
  assume a: "ds \<noteq> []" "list_all is_digit ds"
  have t: "takeWhile is_digit ds = ds"
    using a by (simp add: takeWhile_eq_all_conv list_all_iff)
  have d: "dropWhile is_digit ds = []"
    using a by (simp add: list_all_iff)
  show ?thesis unfolding float_py_def Let_def t d using a by simp
qed

lemma float_py_point:
  "list_all is_digit ds \<Longrightarrow> list_all is_digit fs \<Longrightarrow> fs \<noteq> [] \<Longrightarrow>
   \<exists>x. float_py (ds @ CHR ''.'' # fs) = Inr x"
proof -
  assume a: "list_all is_digit ds" "list_all is_digit fs" "fs \<noteq> []"
  then have "takeWhile is_digit (ds @ CHR ''.'' # fs) = ds"
    "dropWhile is_digit (ds @ CHR ''.'' # fs) = CHR ''.'' # fs"
    by (auto simp: list_all_iff dot_not_digit takeWhile_append dropWhile_append)
  with a show ?thesis by (simp add: float_py_def)
qed

lemma number_token_float:
  assumes "0 < match_number s"
  shows "\<exists>x. float_py (take (match_number s) s) = Inr x"
proof -
  define ds where "ds = takeWhile is_digit s"
  define r where "r = dropWhile is_digit s"
  have s: "s = ds @ r" by (simp add: ds_def r_def)
  have dr: "drop (length ds) s = r" by (simp add: ds_def r_def dropWhile_eq_drop)
  have ds: "list_all is_digit ds"
    by (auto simp: ds_def list_all_iff dest: set_takeWhileD)
  show ?thesis
  proof (cases "\<exists>d r'. r = CHR ''.'' # d # r' \<and> is_digit d")
    case True
    then obtain d r' where r: "r = CHR ''.'' # d # r'" and d: "is_digit d" by blast
    define fs where "fs = takeWhile is_digit (d # r')"
    have fs: "list_all is_digit fs" "fs \<noteq> []"
      using d by (auto simp: fs_def list_all_iff dest: set_takeWhileD)
    have m: "match_number s = length ds + 1 + length fs"
      using d by (simp add: match_number_def ds_def[symmetric] dr r fs_def Let_def)
    have "take (match_number s) s = ds @ CHR ''.'' # fs"
      unfolding m by (subst s) (simp add: r fs_def takeWhile_eq_take[symmetric])
    with float_py_point[OF ds fs] show ?thesis by simp
  next
    case False
    then have m: "match_number s = length ds"
      by (auto simp: match_number_def ds_def[symmetric] dr Let_def split: list.splits)
    then have "take (match_number s) s = ds" by (subst s) simp
    moreover have "ds \<noteq> []" using assms m by auto
    ultimately show ?thesis using float_py_digits[OF _ ds] by simp
  qed
qed

lemma token_float:
  assumes "s \<noteq> []" "0 < match_token s" "0 < match_number (take (match_token s) s)"
  shows "\<exists>x. float_py (take (match_token s) s) = Inr x"
proof -
  obtain c cs where s: "s = c # cs" using assms(1) by (cases s) auto
  show ?thesis
  proof (cases "0 < match_symbol s")
    case True
    then have u: "is_upper c" by (auto simp: match_symbol_def s split: if_splits)
    from True obtain n where "match_token s = Suc n"
      by (cases "match_token s") (auto simp: match_token_def)
    then have "match_number (take (match_token s) s) = 0"
      using upper_not_number[OF u] by (simp add: s match_number_hd)
    with assms(3) show ?thesis by simp
  next
    case False
    show ?thesis
    proof (cases "0 < match_number s")
      case True
      with False have "match_token s = match_number s" by (simp add: match_token_def)
      with number_token_float[OF True] show ?thesis by simp
    next
      case nn: False
      with False assms(2) have b: "match_token s = 1" "c = CHR ''('' \<or> c = CHR '')''"
        by (auto simp: match_token_def match_bracket_def s split: if_splits)
      then have "match_number (take (match_token s) s) = 0"
        using bracket_not_number[OF b(2)] by (simp add: s match_number_hd)
      with assms(3) show ?thesis by simp
    qed
  qed
qed

lemma findall_tokens_float:
  "t \<in> set (findall s) \<Longrightarrow> 0 < match_number t \<Longrightarrow> \<exists>x. float_py t = Inr x"
proof (induction s arbitrary: t rule: findall.induct)
  case (1 s)
  show ?case
  proof (cases "s = []")
    case True
    with "1.prems" show ?thesis by (simp add: findall.simps)
  next
    case False
    show ?thesis
    proof (cases "0 < match_token s")
      case True
      with False have f: "findall s = take (match_token s) s # findall (drop (match_token s) s)"
        by (subst findall.simps) (simp add: Let_def)
      with "1.prems" consider "t = take (match_token s) s" | "t \<in> set (findall (drop (match_token s) s))"
        by auto
      then show ?thesis
      proof cases
        case 1
        with token_float[OF False True] "1.prems" show ?thesis by simp
      next
        case 2
        from "1.IH"(1)[OF False refl True 2 "1.prems"(2)] show ?thesis .
      qed
    next
      case nm: False
      with False have "findall s = findall (tl s)"
        by (subst findall.simps) (simp add: Let_def)
      with "1.prems" have "t \<in> set (findall (tl s))" by simp
      from "1.IH"(2)[OF False refl nm this "1.prems"(2)] show ?thesis .
    qed
  qed
qed

section \<open>The steps of the loop\<close>

lemma add_entry_error: "add_entry stack elem x = Inl e \<Longrightarrow> e = IndexError"
  by (auto simp: add_entry_def split: list.splits)

lemma add_entry_nonempty:
  "stack \<noteq> [] \<Longrightarrow> \<exists>stack'. add_entry stack elem x = Inr stack' \<and> stack' \<noteq> []"
  by (auto simp: add_entry_def split: list.splits)

lemma merge_group_error: "merge_group items multiplier stack = Inl e \<Longrightarrow> e = IndexError"
  by (induction items multiplier stack rule: merge_group.induct)
     (auto split: sum.splits dest: add_entry_error)

lemma parse_loop_open:
  "parse_loop stack (''('' # rest) = parse_loop ([] # stack) rest"
  by simp

lemma parse_loop_close:
  "parse_loop stack ('')'' # rest) =
     (case (case rest of
              [] \<Rightarrow> Inr (Float 1)
            | nxt # _ \<Rightarrow> if 0 < match_number nxt then float_py nxt else Inr (Float 1)) of
        Inl e \<Rightarrow> Inl e
      | Inr multiplier \<Rightarrow>
          (case stack of
             [] \<Rightarrow> Inl IndexError
           | popped # stack' \<Rightarrow>
               (case merge_group popped multiplier stack' of
                  Inl e \<Rightarrow> Inl e
                | Inr stack'' \<Rightarrow> parse_loop stack'' (drop 1 rest))))"
  by simp

lemma parse_loop_symbol_number:
  "token \<noteq> ''('' \<Longrightarrow> token \<noteq> '')'' \<Longrightarrow> 0 < match_symbol token \<Longrightarrow>
   0 < match_number nxt \<Longrightarrow>
   parse_loop stack (token # nxt # rest) =
     (case float_py nxt of
        Inl e \<Rightarrow> Inl e
      | Inr count \<Rightarrow>
          (case add_entry stack token count of
             Inl e \<Rightarrow> Inl e
           | Inr stack' \<Rightarrow> parse_loop stack' rest))"
  by simp

lemma parse_loop_symbol_alone:
  "token \<noteq> ''('' \<Longrightarrow> token \<noteq> '')'' \<Longrightarrow> 0 < match_symbol token \<Longrightarrow>
   (case rest of [] \<Rightarrow> True | nxt # _ \<Rightarrow> match_number nxt = 0) \<Longrightarrow>
   parse_loop stack (token # rest) =
     (case add_entry stack token (Float 1) of
        Inl e \<Rightarrow> Inl e
      | Inr stack' \<Rightarrow> parse_loop stack' rest)"
  by (cases rest) (simp_all split: sum.splits)

lemma parse_loop_other:
  "token \<noteq> ''('' \<Longrightarrow> token \<noteq> '')'' \<Longrightarrow> match_symbol token = 0 \<Longrightarrow>
   parse_loop stack (token # rest) = parse_loop stack rest"
  by simp


lemmas parse_loop_cons = parse_loop.simps(2)
declare parse_loop.simps(2) [simp del]

lemma parse_loop_error:
  "\<forall>t\<in>set toks. 0 < match_number t \<longrightarrow> (\<exists>x. float_py t = Inr x) \<Longrightarrow>
   parse_loop stack toks = Inl e \<Longrightarrow> e = IndexError"
proof (induction stack toks rule: parse_loop.induct)
  case (1 stack)
  then show ?case by simp
next
  case (2 stack token rest)
  show ?case
  proof (cases "token = ''(''")
    case True
    with 2 show ?thesis by (simp add: parse_loop_open)
  next
    case no: False
    show ?thesis
    proof (cases "token = '')''")
      case True
      define m where "m = (case rest of [] \<Rightarrow> Inr (Float 1)
         | nxt # _ \<Rightarrow> if 0 < match_number nxt then float_py nxt else Inr (Float 1))"
      have "\<exists>x. m = Inr x"
        using "2.prems"(1) by (auto simp: m_def split: list.splits)
      then obtain mult where mult: "m = Inr mult" by blast
      show ?thesis
      proof (cases stack)
        case Nil
        with "2.prems"(2) True mult show ?thesis
          by (simp add: parse_loop_close m_def[symmetric])
      next
        case (Cons popped stack')
        show ?thesis
        proof (cases "merge_group popped mult stack'")
          case (Inl e')
          with "2.prems"(2) True mult Cons merge_group_error[OF Inl] show ?thesis
            by (simp add: parse_loop_close m_def[symmetric])
        next
          case (Inr stack'')
          have ok: "\<forall>t\<in>set (drop 1 rest). 0 < match_number t \<longrightarrow> (\<exists>x. float_py t = Inr x)"
            using "2.prems"(1) by (auto dest: in_set_dropD)
          have "parse_loop stack'' (drop 1 rest) = Inl e"
            using "2.prems"(2) True mult Cons Inr
            by (simp add: parse_loop_close m_def[symmetric])
          from "2.IH"(2)[OF no True mult[unfolded m_def] Cons Inr ok this] show ?thesis .
        qed
      qed
    next
      case nc: False
      show ?thesis
      proof (cases "0 < match_symbol token")
        case False
        then have "parse_loop stack rest = Inl e"
          using "2.prems"(2) no nc by (simp add: parse_loop_other)
        with "2.IH"(6)[OF no nc False] "2.prems"(1) show ?thesis by simp
      next
        case sym: True
        show ?thesis
        proof (cases rest)
          case Nil
          with "2.prems"(2) no nc sym show ?thesis
            by (auto simp: parse_loop_symbol_alone split: sum.splits dest: add_entry_error)
        next
          case (Cons nxt rest')
          show ?thesis
          proof (cases "0 < match_number nxt")
            case True
            with "2.prems"(1) Cons obtain cnt where c: "float_py nxt = Inr cnt" by auto
            show ?thesis
            proof (cases "add_entry stack token cnt")
              case (Inl e')
              with "2.prems"(2) no nc sym Cons True c add_entry_error[OF Inl] show ?thesis
                by (simp add: parse_loop_symbol_number)
            next
              case (Inr stack')
              then have "parse_loop stack' rest' = Inl e"
                using "2.prems"(2) no nc sym Cons True c by (simp add: parse_loop_symbol_number)
              with "2.IH"(4)[OF no nc sym Cons True c Inr] "2.prems"(1) Cons show ?thesis by simp
            qed
          next
            case False
            show ?thesis
            proof (cases "add_entry stack token (Float 1)")
              case (Inl e')
              with "2.prems"(2) no nc sym Cons False add_entry_error[OF Inl] show ?thesis
                by (simp add: parse_loop_symbol_alone)
            next
              case (Inr stack')
              then have "parse_loop stack' (nxt # rest') = Inl e"
                using "2.prems"(2) no nc sym Cons False by (simp add: parse_loop_symbol_alone)
              with "2.IH"(5)[OF no nc sym Cons False Inr] "2.prems"(1) Cons show ?thesis by simp
            qed
          qed
        qed
      qed
    qed
  qed
qed


lemma parse_loop_no_close:
  "stack \<noteq> [] \<Longrightarrow>
   \<forall>t\<in>set toks. 0 < match_number t \<longrightarrow> (\<exists>x. float_py t = Inr x) \<Longrightarrow>
   '')'' \<notin> set toks \<Longrightarrow>
   \<exists>stack'. parse_loop stack toks = Inr stack' \<and> stack' \<noteq> []"
proof (induction stack toks rule: parse_loop.induct)
  case (1 stack)
  then show ?case by simp
next
  case (2 stack token rest)
  from "2.prems" have nc: "token \<noteq> '')''" by auto
  show ?case
  proof (cases "token = ''(''")
    case True
    with 2 show ?thesis by (simp add: parse_loop_open)
  next
    case no: False
    show ?thesis
    proof (cases "0 < match_symbol token")
      case False
      with "2.IH"(6)[OF no nc False] "2.prems" no nc show ?thesis
        by (simp add: parse_loop_other)
    next
      case sym: True
      show ?thesis
      proof (cases rest)
        case Nil
        with no nc sym add_entry_nonempty[OF "2.prems"(1), of token "Float 1"]
        show ?thesis by (auto simp: parse_loop_symbol_alone)
      next
        case (Cons nxt rest')
        show ?thesis
        proof (cases "0 < match_number nxt")
          case True
          with "2.prems"(2) Cons obtain cnt where c: "float_py nxt = Inr cnt" by auto
          from add_entry_nonempty[OF "2.prems"(1), of token cnt]
          obtain stack' where s: "add_entry stack token cnt = Inr stack'" "stack' \<noteq> []" by blast
          have "\<exists>stack''. parse_loop stack' rest' = Inr stack'' \<and> stack'' \<noteq> []"
            using "2.IH"(4)[OF no nc sym Cons True c s(1) s(2)] "2.prems" Cons by auto
          with no nc sym Cons True c s show ?thesis by (simp add: parse_loop_symbol_number)
        next
          case False
          from add_entry_nonempty[OF "2.prems"(1), of token "Float 1"]
          obtain stack' where s: "add_entry stack token (Float 1) = Inr stack'" "stack' \<noteq> []" by blast
          have "\<exists>stack''. parse_loop stack' (nxt # rest') = Inr stack'' \<and> stack'' \<noteq> []"
            using "2.IH"(5)[OF no nc sym Cons False s(1) s(2)] "2.prems" Cons by auto
          with no nc sym Cons False s show ?thesis by (simp add: parse_loop_symbol_alone)
        qed
      qed
    qed
  qed
qed

section \<open>The table of results\<close>

lemma dict_set_fresh: "k \<notin> fst ` set d \<Longrightarrow> dict_set d k v = d @ [(k, v)]"
  by (induction d) auto

lemma fold_dict_set_distinct:
  "distinct (map fst xs) \<Longrightarrow> fst ` set acc \<inter> fst ` set xs = {} \<Longrightarrow>
   fold (\<lambda>(k, c) r. dict_set r k (f k c)) xs acc = acc @ map (\<lambda>(k, c). (k, f k c)) xs"
proof (induction xs arbitrary: acc)
  case Nil
  then show ?case by simp
next
  case (Cons p xs)
  obtain k c where p: "p = (k, c)" by (cases p)
  from Cons.prems have fresh: "k \<notin> fst ` set acc" by (auto simp: p)
  have "fst ` set (acc @ [(k, f k c)]) \<inter> fst ` set xs = {}"
    using Cons.prems by (auto simp: p)
  moreover have "distinct (map fst xs)" using Cons.prems by simp
  ultimately have "fold (\<lambda>(k, c) r. dict_set r k (f k c)) xs (acc @ [(k, f k c)])
      = (acc @ [(k, f k c)]) @ map (\<lambda>(k, c). (k, f k c)) xs"
    by (rule Cons.IH[rotated])
  then show ?case by (simp add: p dict_set_fresh[OF fresh])
qed

lemma results_table:
  "distinct (map fst composition) \<Longrightarrow>
   fold (\<lambda>(elem, coeff) results. dict_set results elem (result_cell g factor elem coeff)) composition []
   = map (\<lambda>(elem, coeff). (elem, result_cell g factor elem coeff)) composition"
  using fold_dict_set_distinct[of composition "[]" "result_cell g factor"] by simp

lemma calculate_results:
  assumes "distinct (map fst composition)"
    and "\<not> le_zero mass"
    and "get_atomic_weight selected_elem = Some base_weight"
    and "map_of composition selected_elem = Some base_coeff"
    and "\<not> is_zero (fmul base_weight base_coeff)"
  shows "calculate get_atomic_weight composition selected_elem mass =
    Inr (map (\<lambda>(elem, coeff).
           (elem, result_cell get_atomic_weight (fdiv mass (fmul base_weight base_coeff)) elem coeff))
         composition)"
  using assms by (simp add: calculate_def Let_def results_table)

lemma map_of_results:
  "distinct (map fst composition) \<Longrightarrow> (elem, coeff) \<in> set composition \<Longrightarrow>
   map_of (map (\<lambda>(elem, coeff). (elem, f elem coeff)) composition) elem = Some (f elem coeff)"
  by (induction composition) (auto simp: rev_image_eqI)

lemma map_fst_results:
  "map fst (map (\<lambda>(elem, coeff). (elem, f elem coeff)) composition) = map fst composition"
  by (induction composition) auto

lemma le_zero_Float: "le_zero (Float x) = (x \<le> 0)"
  by (simp add: le_zero_def)

lemma is_zero_Float: "is_zero (Float x) = (x = 0)"
  by (simp add: is_zero_def)

lemma calculate_zero_base:
  assumes "\<not> le_zero mass"
    and "get_atomic_weight selected_elem = Some base_weight"
    and "map_of composition selected_elem = Some base_coeff"
    and "is_zero (fmul base_weight base_coeff)"
  shows "calculate get_atomic_weight composition selected_elem mass =
    Inl (Uncaught ZeroDivisionError)"
  using assms by (simp add: calculate_def Let_def)

section \<open>Rounding errors\<close>

text \<open>
  Rounding a number in the range of the normal floats to 53 bits changes it by at most
  the fraction \<open>2^-53\<close> of its magnitude and gives a finite float of the same sign;
  the format with five decimals changes a finite float by at most half a unit of the
  fifth decimal.
\<close>

lemma bit_length_pos: "0 < n \<Longrightarrow> bit_length n = Suc (bit_length (n div 2))"
  by (subst bit_length.simps) simp

lemma bit_length_bounds:
  "0 < n \<Longrightarrow> 2 ^ (bit_length n - 1) \<le> n \<and> n < 2 ^ bit_length n"
proof (induction n rule: less_induct)
  case (less n)
  show ?case
  proof (cases "n = 1")
    case True
    have "bit_length (Suc 0) = Suc (bit_length 0)"
      using bit_length_pos[of "Suc 0"] by simp
    moreover have "bit_length 0 = 0" by (subst bit_length.simps) simp
    ultimately show ?thesis using True by simp
  next
    case False
    with less.prems have pos: "0 < n div 2" by simp
    have lt: "n div 2 < n" using less.prems by simp
    from less.IH[OF lt pos] have ih: "2 ^ (bit_length (n div 2) - 1) \<le> n div 2"
      "n div 2 < 2 ^ bit_length (n div 2)" by auto
    have bl: "bit_length n = Suc (bit_length (n div 2))"
      by (rule bit_length_pos[OF less.prems])
    obtain m where m: "bit_length (n div 2) = Suc m"
      using bit_length_pos[OF pos] by blast
    have "2 * 2 ^ m \<le> 2 * (n div 2)" using ih(1) m by simp
    also have "\<dots> \<le> n" by simp
    finally have lo: "2 ^ (bit_length n - 1) \<le> n" by (simp add: bl m)
    have "n < 2 * (n div 2) + 2" by presburger
    also have "\<dots> \<le> 2 * 2 ^ bit_length (n div 2)" using ih(2) by simp
    finally have hi: "n < 2 ^ bit_length n" by (simp add: bl)
    from lo hi show ?thesis by simp
  qed
qed

lemma pow2_pos: "0 < pow2 e"
  by (simp add: pow2_def)

lemma pow2_shift: "pow2 (e - 52) = pow2 e / 2 ^ 52"
proof -
  have p: "pow2 k = 2 powi k" for k
    by (simp add: pow2_def power_int_def field_simps)
  show ?thesis unfolding p by (simp add: power_int_diff)
qed

lemma round_half_even_error: "\<bar>of_int (round_half_even q) - q\<bar> \<le> 1 / 2"
proof -
  define f where "f = \<lfloor>q\<rfloor>"
  have b: "of_int f \<le> q" "q < of_int f + 1" unfolding f_def by linarith+
  consider "q - of_int f < 1 / 2" | "1 / 2 < q - of_int f" | "q - of_int f = 1 / 2"
    by linarith
  then show ?thesis
  proof cases
    case 1
    then have "round_half_even q = f" by (simp add: round_half_even_def Let_def f_def)
    with 1 b show ?thesis by simp
  next
    case 2
    then have "round_half_even q = f + 1" by (simp add: round_half_even_def Let_def f_def)
    with 2 b show ?thesis by simp
  next
    case 3
    then have "round_half_even q = f \<or> round_half_even q = f + 1"
      by (simp add: round_half_even_def Let_def f_def)
    with 3 show ?thesis by auto
  qed
qed

lemma pow2_floor_log2_ge1: "1 \<le> x \<Longrightarrow> pow2 (floor_log2 x) \<le> x"
proof -
  assume x: "1 \<le> x"
  define n where "n = nat \<lfloor>x\<rfloor>"
  have n: "0 < n" using x by (simp add: n_def)
  have nx: "of_nat n \<le> x" using x by (simp add: n_def)
  obtain m where m: "bit_length n = Suc m"
    using bit_length_pos[OF n] by blast
  from bit_length_bounds[OF n] have "2 ^ m \<le> n" by (simp add: m)
  then have "(of_nat (2 ^ m) :: rat) \<le> of_nat n" by (simp only: of_nat_le_iff)
  then have h: "(2::rat) ^ m \<le> of_nat n" by simp
  have le: "(2::rat) ^ m \<le> x" using h nx by (rule order_trans)
  have "floor_log2 x = int m" using x by (simp add: floor_log2_def n_def[symmetric] m)
  with le show ?thesis by (simp add: pow2_def)
qed

lemma pow2_floor_log2_lt1: "0 < x \<Longrightarrow> x < 1 \<Longrightarrow> pow2 (floor_log2 x) \<le> x"
proof -
  assume pos: "0 < x" and lt: "x < 1"
  define c where "c = \<lceil>1 / x\<rceil>"
  define m where "m = nat (c - 1)"
  have y: "1 < 1 / x" using pos lt by (simp add: field_simps)
  have yc: "1 / x \<le> of_int c" unfolding c_def by (rule le_of_int_ceiling)
  from y yc have "(1::rat) < of_int c" by (rule less_le_trans)
  then have c2: "2 \<le> c" by simp
  then have mpos: "0 < m" by (simp add: m_def)
  have "int m = c - 1" using c2 by (simp add: m_def)
  then have "c = int m + 1" by simp
  then have "(of_int c :: rat) = of_nat m + 1" by simp
  with yc have ym: "1 / x \<le> of_nat m + 1" by simp
  from bit_length_bounds[OF mpos] have "Suc m \<le> 2 ^ bit_length m" by simp
  then have "(of_nat (Suc m) :: rat) \<le> of_nat (2 ^ bit_length m)" by (simp only: of_nat_le_iff)
  then have h: "(of_nat m + 1 :: rat) \<le> 2 ^ bit_length m" by simp
  have "1 / x \<le> 2 ^ bit_length m" using ym h by (rule order_trans)
  then have "1 / 2 ^ bit_length m \<le> x" using pos by (simp add: field_simps)
  moreover have "floor_log2 x = - int (bit_length m)"
    using lt by (simp add: floor_log2_def m_def c_def)
  moreover have "0 < bit_length m" using bit_length_pos[OF mpos] by simp
  ultimately show ?thesis by (simp add: pow2_def)
qed

lemma pow2_floor_log2: "0 < x \<Longrightarrow> pow2 (floor_log2 x) \<le> x"
  using pow2_floor_log2_ge1[of x] pow2_floor_log2_lt1[of x] by linarith

lemma round_to_float_in_range:
  assumes "0 < x" and "- 1022 \<le> floor_log2 x" and "floor_log2 x \<le> 1022"
  shows "\<exists>r. round_to_float negative x = Float ((if negative then - 1 else 1) * r)
              \<and> 0 < r \<and> \<bar>r - x\<bar> \<le> x / 2 ^ 53"
proof -
  define e where "e = floor_log2 x"
  define ulp where "ulp = pow2 (e - 52)"
  define a where "a = x / ulp"
  define m where "m = round_half_even a"
  have up: "0 < ulp" by (simp add: ulp_def pow2_pos)
  have "pow2 e \<le> x" unfolding e_def using assms(1) by (rule pow2_floor_log2)
  then have ulp: "ulp * 2 ^ 52 \<le> x" by (simp add: ulp_def pow2_shift)
  have ax: "a * ulp = x" using up by (simp add: a_def)
  have err: "\<bar>of_int m - a\<bar> \<le> 1 / 2" unfolding m_def by (rule round_half_even_error)
  have "2 ^ 52 * ulp \<le> a * ulp" using ulp ax by (simp add: mult.commute)
  then have a52: "2 ^ 52 \<le> a" using up by simp
  have "(1::rat) \<le> 2 ^ 52 - 1 / 2" by simp
  also have "\<dots> \<le> a - 1 / 2" using a52 by simp
  also have "\<dots> \<le> of_int m" using err by linarith
  finally have "(1::rat) \<le> of_int m" .
  then have mpos: "1 \<le> m" by simp
  have emax: "max (floor_log2 x) (- 1022) = e" using assms(2) by (simp add: e_def)
  have e1022: "e \<le> 1022" using assms(3) by (simp add: e_def)
  have r: "round_to_float negative x = Float ((if negative then - 1 else 1) * (of_int m * ulp))"
    using assms(1) e1022 mpos
    by (simp add: round_to_float_def Let_def emax ulp_def[symmetric] a_def[symmetric]
        m_def[symmetric] mult.assoc)
  have pos: "0 < of_int m * ulp" using mpos up by simp
  have "of_int m * ulp - x = (of_int m - a) * ulp" unfolding ax[symmetric]
    by (simp add: algebra_simps)
  then have "\<bar>of_int m * ulp - x\<bar> = \<bar>of_int m - a\<bar> * ulp"
    using up by (simp add: abs_mult)
  also have "\<dots> \<le> 1 / 2 * ulp" using err up by (intro mult_right_mono) simp_all
  also have "\<dots> \<le> x / 2 ^ 53" using ulp by simp
  finally have "\<bar>of_int m * ulp - x\<bar> \<le> x / 2 ^ 53" .
  with r pos show ?thesis by blast
qed

lemma round_signed_in_range:
  assumes "in_range x"
  shows "\<exists>r. round_to_float (x < 0) \<bar>x\<bar> = Float r \<and> \<bar>r - x\<bar> \<le> \<bar>x\<bar> / 2 ^ 53
              \<and> r \<noteq> 0 \<and> (0 < r) = (0 < x)"
proof -
  from assms have x: "0 < \<bar>x\<bar>" "- 1022 \<le> floor_log2 \<bar>x\<bar>" "floor_log2 \<bar>x\<bar> \<le> 1022"
    by (simp_all add: in_range_def)
  from round_to_float_in_range[OF x, of "x < 0"]
  obtain r where r: "round_to_float (x < 0) \<bar>x\<bar> = Float ((if x < 0 then - 1 else 1) * r)"
    "0 < r" "\<bar>r - \<bar>x\<bar>\<bar> \<le> \<bar>x\<bar> / 2 ^ 53" by blast
  show ?thesis
  proof (cases "x < 0")
    case True
    with r have "round_to_float (x < 0) \<bar>x\<bar> = Float (- r)" by simp
    moreover have "\<bar>- r - x\<bar> \<le> \<bar>x\<bar> / 2 ^ 53" using r(3) True by simp
    ultimately show ?thesis using r(2) True by auto
  next
    case False
    with r have "round_to_float (x < 0) \<bar>x\<bar> = Float r" by simp
    moreover have "\<bar>r - x\<bar> \<le> \<bar>x\<bar> / 2 ^ 53" using r(3) False by simp
    moreover have "0 < x" using False x(1) by simp
    ultimately show ?thesis using r(2) by auto
  qed
qed

lemma fl_in_range:
  "in_range x \<Longrightarrow>
   \<exists>r. fl x = Float r \<and> \<bar>r - x\<bar> \<le> \<bar>x\<bar> / 2 ^ 53 \<and> r \<noteq> 0 \<and> (0 < r) = (0 < x)"
  unfolding fl_def by (rule round_signed_in_range)

lemma in_range_nonzero: "in_range x \<Longrightarrow> x \<noteq> 0"
  by (simp add: in_range_def)

lemma fmul_in_range:
  assumes "in_range (x * y)"
  shows "\<exists>r. fmul (Float x) (Float y) = Float r \<and> \<bar>r - x * y\<bar> \<le> \<bar>x * y\<bar> / 2 ^ 53
              \<and> r \<noteq> 0 \<and> (0 < r) = (0 < x * y)"
proof -
  from assms have nz: "x * y \<noteq> 0" by (rule in_range_nonzero)
  then have s: "((x < 0) = (\<not> y < 0)) = (x * y < 0)"
    by (auto simp: mult_less_0_iff not_less le_less)
  have "fmul (Float x) (Float y) = round_to_float (x * y < 0) \<bar>x * y\<bar>"
    by (simp add: fmul_def is_finite_def sign_bit_def float_value_def s)
  with round_signed_in_range[OF assms] show ?thesis by simp
qed

lemma fdiv_in_range:
  assumes "in_range (x / y)"
  shows "\<exists>r. fdiv (Float x) (Float y) = Float r \<and> \<bar>r - x / y\<bar> \<le> \<bar>x / y\<bar> / 2 ^ 53
              \<and> r \<noteq> 0 \<and> (0 < r) = (0 < x / y)"
proof -
  from assms have nz: "x / y \<noteq> 0" by (rule in_range_nonzero)
  then have s: "((x < 0) = (\<not> y < 0)) = (x / y < 0)"
    by (auto simp: divide_less_0_iff not_less le_less)
  have "fdiv (Float x) (Float y) = round_to_float (x / y < 0) \<bar>x / y\<bar>"
    by (simp add: fdiv_def is_finite_def sign_bit_def float_value_def s)
  with round_signed_in_range[OF assms] show ?thesis by simp
qed

lemma format_5f_error:
  "\<exists>v. shown_value (format_5f (Float x)) = Some v \<and> \<bar>v - x\<bar> \<le> 1 / 200000"
proof -
  define d where "d = of_int (round_half_even (\<bar>x\<bar> * 100000)) - \<bar>x\<bar> * 100000"
  define v where "v = of_int (round_half_even (\<bar>x\<bar> * 100000)) / (100000::rat)"
  have d: "\<bar>d\<bar> \<le> 1 / 2" unfolding d_def by (rule round_half_even_error)
  have e: "v - \<bar>x\<bar> = d / 100000"
    by (simp add: v_def d_def field_simps)
  have "\<bar>d / 100000\<bar> = \<bar>d\<bar> / 100000" by simp
  also have "\<dots> \<le> 1 / 200000" using d by simp
  finally have ve: "\<bar>v - \<bar>x\<bar>\<bar> \<le> 1 / 200000" unfolding e .
  show ?thesis
  proof (cases "x < 0")
    case False
    then have "shown_value (format_5f (Float x)) = Some v"
      by (simp add: format_5f_def shown_value_def Let_def v_def)
    moreover have "\<bar>v - x\<bar> \<le> 1 / 200000" using ve False by simp
    ultimately show ?thesis by blast
  next
    case True
    then have "shown_value (format_5f (Float x)) = Some (- v)"
      by (simp add: format_5f_def shown_value_def Let_def v_def)
    moreover have "- v - x = - (v - \<bar>x\<bar>)" using True by simp
    then have "\<bar>- v - x\<bar> = \<bar>v - \<bar>x\<bar>\<bar>" by (simp only: abs_minus)
    then have "\<bar>- v - x\<bar> \<le> 1 / 200000" using ve by simp
    ultimately show ?thesis by blast
  qed
qed

lemma fmul_zero_left: "is_zero a \<Longrightarrow> fmul a c = Float b \<Longrightarrow> b = 0"
  by (cases c)
     (auto simp: fmul_def is_zero_def is_finite_def float_value_def sign_bit_def
        round_to_float_def signed_zero_def split: if_splits)

text \<open>The product \<open>a * (k / b)\<close> in floats, and its text, against the exact value.\<close>

lemma scaled_error:
  assumes "fdiv (Float k) (Float b) = Float q"
    and "in_range (k / b)"
    and "in_range (a * q)"
  shows "\<exists>r. fmul (Float a) (Float q) = Float r
              \<and> \<bar>r - a * (k / b)\<bar> \<le> 3 * \<bar>a * (k / b)\<bar> / 2 ^ 53"
proof -
  define X where "X = a * (k / b)"
  define p where "p = a * q"
  from fdiv_in_range[OF assms(2)] assms(1)
  have e1: "\<bar>q - k / b\<bar> \<le> \<bar>k / b\<bar> / 2 ^ 53" by auto
  from fmul_in_range[OF assms(3)]
  obtain r where r: "fmul (Float a) (Float q) = Float r" "\<bar>r - p\<bar> \<le> \<bar>p\<bar> / 2 ^ 53"
    unfolding p_def by blast
  have "p - X = a * (q - k / b)" by (simp add: p_def X_def algebra_simps)
  then have "\<bar>p - X\<bar> = \<bar>a\<bar> * \<bar>q - k / b\<bar>" by (simp only: abs_mult)
  also have "\<dots> \<le> \<bar>a\<bar> * (\<bar>k / b\<bar> / 2 ^ 53)"
    using e1 by (intro mult_left_mono) simp_all
  also have "\<dots> = \<bar>X\<bar> / 2 ^ 53" by (simp add: X_def abs_mult)
  finally have pX: "\<bar>p - X\<bar> \<le> \<bar>X\<bar> / 2 ^ 53" .
  have t: "\<bar>r - X\<bar> \<le> \<bar>r - p\<bar> + \<bar>p - X\<bar>" by linarith
  have pa: "\<bar>p\<bar> \<le> \<bar>X\<bar> + \<bar>p - X\<bar>" by linarith
  have lin: "c \<le> 3 * x / 2 ^ 53"
    if "d1 \<le> x / 2 ^ 53" "d2 \<le> pp / 2 ^ 53" "pp \<le> x + d1" "c \<le> d2 + d1" "0 \<le> x"
    for x d1 d2 pp c :: rat
    using that by simp
  have "\<bar>r - X\<bar> \<le> 3 * \<bar>X\<bar> / 2 ^ 53"
    by (rule lin[OF pX r(2) pa t]) simp
  with r(1) show ?thesis unfolding X_def by blast
qed

lemma shown_error:
  assumes "fdiv (Float k) (Float b) = Float q"
    and "in_range (k / b)"
    and "in_range (a * q)"
  shows "\<exists>x. shown_value (format_5f (fmul (Float a) (Float q))) = Some x
              \<and> \<bar>x - k * (a / b)\<bar> \<le> 1 / 200000 + 3 * \<bar>k * (a / b)\<bar> / 2 ^ 53"
proof -
  define X where "X = a * (k / b)"
  have X: "k * (a / b) = X" by (simp add: X_def)
  from scaled_error[OF assms]
  obtain r where r: "fmul (Float a) (Float q) = Float r" "\<bar>r - X\<bar> \<le> 3 * \<bar>X\<bar> / 2 ^ 53"
    unfolding X_def by blast
  from format_5f_error[of r]
  obtain x where x: "shown_value (format_5f (Float r)) = Some x" "\<bar>x - r\<bar> \<le> 1 / 200000"
    by blast
  have "\<bar>x - X\<bar> \<le> \<bar>x - r\<bar> + \<bar>r - X\<bar>" by linarith
  with x(2) r(2) have "\<bar>x - X\<bar> \<le> 1 / 200000 + 3 * \<bar>X\<bar> / 2 ^ 53" by linarith
  with x(1) r(1) show ?thesis unfolding X by auto
qed

section \<open>Overflow and underflow\<close>

text \<open>
  \<open>in_range\<close> is the interval from \<open>2^-1022\<close> to \<open>2^1023\<close>. A magnitude of \<open>2^1024\<close> or
  more rounds to an infinity, and a magnitude below \<open>2^-1075\<close> to a zero.
\<close>

lemma pow2_powi: "pow2 k = 2 powi k"
  by (simp add: pow2_def power_int_def field_simps)

lemma pow2_mono: "a \<le> b \<Longrightarrow> pow2 a \<le> pow2 b"
  unfolding pow2_powi by (rule power_int_increasing) simp_all

lemma pow2_Suc: "pow2 (e + 1) = 2 * pow2 e"
  unfolding pow2_powi by (simp add: power_int_add)

lemma floor_log2_upper_ge1: "1 \<le> x \<Longrightarrow> x < pow2 (floor_log2 x + 1)"
proof -
  assume x: "1 \<le> x"
  define n where "n = nat \<lfloor>x\<rfloor>"
  have n: "0 < n" using x by (simp add: n_def)
  have "x < of_int \<lfloor>x\<rfloor> + 1" by linarith
  moreover have "(of_int \<lfloor>x\<rfloor> :: rat) = of_nat n" using x by (simp add: n_def)
  ultimately have xn: "x < of_nat n + 1" by simp
  from bit_length_bounds[OF n] have "Suc n \<le> 2 ^ bit_length n" by simp
  then have "(of_nat (Suc n) :: rat) \<le> of_nat (2 ^ bit_length n)" by (simp only: of_nat_le_iff)
  then have h: "(of_nat n + 1 :: rat) \<le> 2 ^ bit_length n" by simp
  have lt: "x < 2 ^ bit_length n" using xn h by (rule less_le_trans)
  have "floor_log2 x + 1 = int (bit_length n)"
    using x by (simp add: floor_log2_def n_def[symmetric])
  with lt show ?thesis by (simp add: pow2_def)
qed

lemma floor_log2_upper_lt1: "0 < x \<Longrightarrow> x < 1 \<Longrightarrow> x < pow2 (floor_log2 x + 1)"
proof -
  assume pos: "0 < x" and lt: "x < 1"
  define c where "c = \<lceil>1 / x\<rceil>"
  define m where "m = nat (c - 1)"
  have y: "1 < 1 / x" using pos lt by (simp add: field_simps)
  have yc: "1 / x \<le> of_int c" unfolding c_def by (rule le_of_int_ceiling)
  from y yc have "(1::rat) < of_int c" by (rule less_le_trans)
  then have c2: "2 \<le> c" by simp
  then have mpos: "0 < m" by (simp add: m_def)
  have "int m = c - 1" using c2 by (simp add: m_def)
  then have cm: "(of_nat m :: rat) = of_int c - 1"
    by (metis of_int_diff of_int_of_nat_eq of_int_1)
  have "of_int c - 1 < 1 / x" unfolding c_def by linarith
  then have my: "of_nat m < 1 / x" using cm by simp
  obtain j where j: "bit_length m = Suc j"
    using bit_length_pos[OF mpos] by blast
  from bit_length_bounds[OF mpos] have "2 ^ j \<le> m" by (simp add: j)
  then have "(of_nat (2 ^ j) :: rat) \<le> of_nat m" by (simp only: of_nat_le_iff)
  then have h: "(2::rat) ^ j \<le> of_nat m" by simp
  have "(2::rat) ^ j < 1 / x" using h my by (rule le_less_trans)
  then have xj: "x < 1 / 2 ^ j" using pos by (simp add: field_simps)
  have "floor_log2 x + 1 = - int j"
    using lt by (simp add: floor_log2_def m_def[symmetric] c_def[symmetric] j)
  with xj lt show ?thesis by (simp add: pow2_def)
qed

lemma floor_log2_upper: "0 < x \<Longrightarrow> x < pow2 (floor_log2 x + 1)"
  using floor_log2_upper_ge1[of x] floor_log2_upper_lt1[of x] by linarith

lemma floor_log2_ge: "0 < x \<Longrightarrow> pow2 e \<le> x \<Longrightarrow> e \<le> floor_log2 x"
proof (rule ccontr)
  assume x: "0 < x" and e: "pow2 e \<le> x" and n: "\<not> e \<le> floor_log2 x"
  then have "floor_log2 x + 1 \<le> e" by simp
  then have "pow2 (floor_log2 x + 1) \<le> pow2 e" by (rule pow2_mono)
  with floor_log2_upper[OF x] e show False by linarith
qed

lemma floor_log2_less: "0 < x \<Longrightarrow> x < pow2 e \<Longrightarrow> floor_log2 x < e"
proof (rule ccontr)
  assume x: "0 < x" and e: "x < pow2 e" and n: "\<not> floor_log2 x < e"
  then have "e \<le> floor_log2 x" by simp
  then have "pow2 e \<le> pow2 (floor_log2 x)" by (rule pow2_mono)
  with pow2_floor_log2[OF x] e show False by linarith
qed

lemma in_range_iff: "in_range x \<longleftrightarrow> pow2 (- 1022) \<le> \<bar>x\<bar> \<and> \<bar>x\<bar> < pow2 1023"
proof
  assume r: "in_range x"
  then have x: "0 < \<bar>x\<bar>" by (simp add: in_range_def)
  from r have "pow2 (- 1022) \<le> pow2 (floor_log2 \<bar>x\<bar>)"
    by (intro pow2_mono) (simp add: in_range_def)
  with pow2_floor_log2[OF x] have lo: "pow2 (- 1022) \<le> \<bar>x\<bar>" by linarith
  from r have "pow2 (floor_log2 \<bar>x\<bar> + 1) \<le> pow2 1023"
    by (intro pow2_mono) (simp add: in_range_def)
  with floor_log2_upper[OF x] have "\<bar>x\<bar> < pow2 1023" by linarith
  with lo show "pow2 (- 1022) \<le> \<bar>x\<bar> \<and> \<bar>x\<bar> < pow2 1023" by simp
next
  assume a: "pow2 (- 1022) \<le> \<bar>x\<bar> \<and> \<bar>x\<bar> < pow2 1023"
  have "0 < pow2 (- 1022)" by (rule pow2_pos)
  with a have x: "0 < \<bar>x\<bar>" by linarith
  from a have "- 1022 \<le> floor_log2 \<bar>x\<bar>" by (intro floor_log2_ge[OF x]) simp
  moreover from a have "floor_log2 \<bar>x\<bar> < 1023" by (intro floor_log2_less[OF x]) simp
  ultimately show "in_range x" using x by (simp add: in_range_def)
qed

lemma round_to_float_overflow:
  assumes "pow2 1024 \<le> x"
  shows "round_to_float negative x = signed_inf negative"
proof -
  have "0 < pow2 1024" by (rule pow2_pos)
  with assms have x: "0 < x" by linarith
  from floor_log2_ge[OF x assms] have "1023 < floor_log2 x" by simp
  with x show ?thesis by (simp add: round_to_float_def Let_def max_def)
qed

lemma round_to_float_underflow:
  assumes "0 < x" and "x < pow2 (- 1075)"
  shows "round_to_float negative x = signed_zero negative"
proof -
  have p: "pow2 (- 1074) = 2 * pow2 (- 1075)" using pow2_Suc[of "- 1075"] by simp
  have "pow2 (- 1075) \<le> pow2 (- 1022)" by (rule pow2_mono) simp
  with assms(2) have "x < pow2 (- 1022)" by linarith
  from floor_log2_less[OF assms(1) this]
  have e: "max (floor_log2 x) (- 1022) = - 1022" by simp
  have up: "0 < pow2 (- 1074)" by (rule pow2_pos)
  define a where "a = x / pow2 (- 1074)"
  have "x < pow2 (- 1074) / 2" using assms(2) p by simp
  then have a: "0 \<le> a" "a < 1 / 2" using assms(1) up by (simp_all add: a_def field_simps)
  then have "\<lfloor>a\<rfloor> = 0" by (simp add: floor_eq_iff)
  with a have "round_half_even a = 0" by (simp add: round_half_even_def Let_def)
  with assms(1) show ?thesis
    by (simp add: round_to_float_def Let_def e a_def[symmetric])
qed

text \<open>
  A base mass so small that the factor overflows: the factor is \<open>inf\<close>, and so is the
  cell of every element whose atomic weight times coefficient is a positive float.
\<close>

lemma overflowing_factor:
  "0 < m \<Longrightarrow> 0 < b \<Longrightarrow> pow2 1024 \<le> m / b \<Longrightarrow> fdiv (Float m) (Float b) = PosInf"
proof -
  assume a: "0 < m" "0 < b" "pow2 1024 \<le> m / b"
  have "fdiv (Float m) (Float b) = round_to_float False \<bar>m / b\<bar>"
    using a by (simp add: fdiv_def is_finite_def sign_bit_def float_value_def not_less_iff_gr_or_eq)
  also have "\<bar>m / b\<bar> = m / b" using a by simp
  also have "round_to_float False (m / b) = signed_inf False"
    using a(3) by (rule round_to_float_overflow)
  finally show ?thesis by (simp add: signed_inf_def)
qed

lemma infinite_factor_cell:
  "fmul w coeff = Float a \<Longrightarrow> 0 < a \<Longrightarrow> format_5f (required_mass w coeff PosInf) = TextInf"
  by (simp add: required_mass_def fmul_def is_finite_def is_zero_def sign_bit_def
      signed_inf_def format_5f_def)

lemma overflowing_table:
  assumes "distinct (map fst composition)"
    and "0 < mass"
    and "get_atomic_weight selected_elem = Some base_weight"
    and "map_of composition selected_elem = Some base_coeff"
    and "fmul base_weight base_coeff = Float base_mass"
    and "0 < base_mass"
    and "pow2 1024 \<le> mass / base_mass"
    and "(elem, coeff) \<in> set composition"
    and "get_atomic_weight elem = Some w"
    and "fmul w coeff = Float a"
    and "0 < a"
  shows "\<exists>results.
    calculate get_atomic_weight composition selected_elem (Float mass) = Inr results
    \<and> map_of results elem = Some TextInf"
proof -
  have nle: "\<not> le_zero (Float mass)" using assms(2) by (simp add: le_zero_Float)
  have bz: "\<not> is_zero (fmul base_weight base_coeff)"
    using assms(6) by (simp add: assms(5) is_zero_Float)
  have wz: "\<not> is_zero w"
    using fmul_zero_left[OF _ assms(10)] assms(11) by auto
  have f: "fdiv (Float mass) (Float base_mass) = PosInf"
    using assms(2,6,7) by (rule overflowing_factor)
  let ?f = "result_cell get_atomic_weight PosInf"
  let ?r = "map (\<lambda>(elem, coeff). (elem, ?f elem coeff)) composition"
  have c: "calculate get_atomic_weight composition selected_elem (Float mass) = Inr ?r"
    using calculate_results[where get_atomic_weight = get_atomic_weight
          and selected_elem = selected_elem, OF assms(1) nle assms(3,4) bz]
    by (simp add: assms(5) f)
  have "map_of ?r elem = Some TextInf"
    using map_of_results[OF assms(1,8), of ?f] assms(9) wz
      infinite_factor_cell[OF assms(10,11)]
    by (simp add: result_cell_def)
  with c show ?thesis by blast
qed

section \<open>The examples of the documentation\<close>

text \<open>
  C3. \<open>parse_formula\<close> returns the documented dictionaries on \<open>H2O\<close>, \<open>Fe0.5O1.5\<close>,
  \<open>Fe(OH)2\<close>, \<open>Al2(SO4)3\<close> and \<open>NaCl\<close>, with the keys in the order shown.
\<close>

theorem parse_formula_examples:
  "parse_formula ''H2O'' = Inr [(''H'', Float 2), (''O'', Float 1)]
   \<and> parse_formula ''Fe0.5O1.5'' = Inr [(''Fe'', Float (1 / 2)), (''O'', Float (3 / 2))]
   \<and> parse_formula ''Fe(OH)2'' = Inr [(''Fe'', Float 1), (''O'', Float 2), (''H'', Float 2)]
   \<and> parse_formula ''Al2(SO4)3'' = Inr [(''Al'', Float 2), (''S'', Float 3), (''O'', Float 12)]
   \<and> parse_formula ''NaCl'' = Inr [(''Na'', Float 1), (''Cl'', Float 1)]"
  by code_simp

section \<open>Failures of \<open>parse_formula\<close>\<close>

text \<open>
  C1 (as amended). \<open>parse_formula\<close> has no error of its own and validates nothing.
  A formula without any token yields the empty dictionary; a formula without a
  close-bracket token, whether or not its open-brackets are closed, yields a
  dictionary; the only exception \<open>parse_formula\<close> raises is \<open>IndexError\<close>, and only on a
  formula that has a close-bracket token.
\<close>

theorem parse_formula_failure:
  "(findall formula = [] \<longrightarrow> parse_formula formula = Inr [])
   \<and> ('')'' \<notin> set (findall formula) \<longrightarrow> (\<exists>c. parse_formula formula = Inr c))
   \<and> (\<forall>e. parse_formula formula = Inl e \<longrightarrow>
          e = IndexError \<and> '')'' \<in> set (findall formula))"
proof -
  have ok: "\<forall>t\<in>set (findall formula). 0 < match_number t \<longrightarrow> (\<exists>x. float_py t = Inr x)"
    using findall_tokens_float by blast
  have a: "findall formula = [] \<longrightarrow> parse_formula formula = Inr []"
    by (simp add: parse_formula_def)
  have b: "\<exists>c. parse_formula formula = Inr c" if "'')'' \<notin> set (findall formula)"
  proof -
    from parse_loop_no_close[OF _ ok that, of "[[]]"]
    obtain stack' where "parse_loop [[]] (findall formula) = Inr stack'" "stack' \<noteq> []"
      by auto
    then show ?thesis by (auto simp: parse_formula_def split: list.splits)
  qed
  have c: "e = IndexError \<and> '')'' \<in> set (findall formula)" if "parse_formula formula = Inl e" for e
  proof
    show "e = IndexError"
      using that parse_loop_error[OF ok, of "[[]]"]
      by (auto simp: parse_formula_def split: sum.splits list.splits)
    show "'')'' \<in> set (findall formula)"
      using that b by fastforce
  qed
  from a b c show ?thesis by blast
qed

theorem parse_formula_failure_witness:
  "findall '''' = [] \<and> parse_formula '''' = Inr []
   \<and> '')'' \<notin> set (findall ''Fe(OH'') \<and> (\<exists>c. parse_formula ''Fe(OH'' = Inr c)
   \<and> parse_formula ''Fe)O2'' = Inl IndexError \<and> '')'' \<in> set (findall ''Fe)O2'')"
proof -
  have h1: "findall '''' = []" by code_simp
  have h2: "'')'' \<notin> set (findall ''Fe(OH'')" by code_simp
  have h3: "parse_formula ''Fe)O2'' = Inl IndexError" by code_simp
  show ?thesis
    using parse_formula_failure[of "''''"] parse_formula_failure[of "''Fe(OH''"]
      parse_formula_failure[of "''Fe)O2''"] h1 h2 h3
    by blast
qed

text \<open>
  The three situations in which the specification expects a failure and
  \<open>parse_formula\<close> returns a dictionary: no token at all, an open-bracket that is never
  closed (the unclosed group is dropped), and a close-bracket without an open-bracket
  (here the root group is popped and two later open-brackets, of which the first is
  passed over, leave one group on the stack).
\<close>

theorem parse_formula_no_validation:
  "parse_formula '''' = Inr []
   \<and> parse_formula ''Fe(OH'' = Inr [(''Fe'', Float 1)]
   \<and> parse_formula '')(('' = Inr []"
  by code_simp

section \<open>The token after a close-bracket\<close>

text \<open>
  C2. The specification lets a close-bracket without a multiplier leave the next token
  in place. In \<open>parse_formula\<close> the token after a close-bracket is always passed over:
  in \<open>(OH)Fe\<close> the symbol \<open>Fe\<close> is not counted, although \<open>(OH)1Fe\<close> counts it, and
  in \<open>(OH)(OH)\<close> the second open-bracket is lost, so that the last close-bracket
  pops the root group and the merge raises \<open>IndexError\<close>.
\<close>

theorem close_bracket_skips_next_token:
  "parse_formula ''(OH)Fe'' = Inr [(''O'', Float 1), (''H'', Float 1)]
   \<and> parse_formula ''(OH)1Fe'' = Inr [(''O'', Float 1), (''H'', Float 1), (''Fe'', Float 1)]
   \<and> parse_formula ''(OH)(OH)'' = Inl IndexError"
  by code_simp

text \<open>
  C4. The specification makes the coefficient of a symbol the sum of all its
  occurrences. A symbol that directly follows a close-bracket is not added:
  \<open>(Fe)Fe\<close> gives \<open>Fe\<close> the coefficient 1 and \<open>Fe(Fe)Fe\<close> gives it 2.
\<close>

theorem skipped_symbol_not_summed:
  "parse_formula ''(Fe)Fe'' = Inr [(''Fe'', Float 1)]
   \<and> parse_formula ''Fe(Fe)Fe'' = Inr [(''Fe'', Float 2)]"
  by code_simp

section \<open>Parsing twice\<close>

text \<open>
  C9. \<open>parse_formula\<close> reads its argument and nothing else; its stack, token list and
  index are local. Through the Enter button: pressing it twice with the same formula
  leaves the session state of pressing it once, and the dictionary it stores for a
  formula that parses is the same from any two earlier session states.
\<close>

theorem enter_button_idempotent:
  "enter_button (enter_button st formula) formula = enter_button st formula
   \<and> (parse_formula formula = Inr c \<longrightarrow>
        session_composition (enter_button st formula) = Some c
        \<and> session_composition (enter_button st' formula) = Some c)"
  by (auto simp: enter_button_def split: sum.splits)

theorem enter_button_idempotent_witness:
  "parse_formula ''H2O'' = Inr [(''H'', Float 2), (''O'', Float 1)]
   \<and> session_composition (enter_button \<lparr>session_composition = None\<rparr> ''H2O'')
       = Some [(''H'', Float 2), (''O'', Float 1)]
   \<and> session_composition (enter_button \<lparr>session_composition = Some [(''Fe'', Float 1)]\<rparr> ''H2O'')
       = Some [(''H'', Float 2), (''O'', Float 1)]"
proof -
  have h: "parse_formula ''H2O'' = Inr [(''H'', Float 2), (''O'', Float 1)]" by code_simp
  show ?thesis
    using h enter_button_idempotent[of "\<lparr>session_composition = None\<rparr>" "''H2O''"
        "[(''H'', Float 2), (''O'', Float 1)]" "\<lparr>session_composition = Some [(''Fe'', Float 1)]\<rparr>"]
    by simp
qed

section \<open>The Calculate button\<close>

text \<open>
  C7 (as amended). A mass that is not positive ends in the invalid-mass message, before
  anything else is looked at. There is no message for a selected element that is not a
  key of the composition (the select box offers the keys only): with a positive mass the
  handler then ends in the no-atomic-weight message when the lookup has no mass for the
  element, and otherwise \<open>composition[selected_elem]\<close> raises \<open>KeyError\<close>.
\<close>

theorem calculate_precondition_failures:
  "(le_zero mass \<longrightarrow>
      calculate get_atomic_weight composition selected_elem mass = Inl ErrorInvalidMass)
   \<and> (\<not> le_zero mass \<longrightarrow> map_of composition selected_elem = None \<longrightarrow>
      calculate get_atomic_weight composition selected_elem mass =
        Inl (case get_atomic_weight selected_elem of
               None \<Rightarrow> ErrorNoAtomicWeight selected_elem
             | Some w \<Rightarrow> Uncaught (KeyError selected_elem)))"
  by (auto simp: calculate_def split: option.splits)

theorem calculate_precondition_failures_witness:
  "le_zero (Float 0)
   \<and> calculate (map_of [(''O'', Float 16)]) [(''H'', Float 2), (''O'', Float 1)] ''O'' (Float 0)
       = Inl ErrorInvalidMass
   \<and> \<not> le_zero (Float 1) \<and> map_of [(''H'', Float 2), (''O'', Float 1)] ''Fe'' = None
   \<and> calculate (map_of [(''O'', Float 16)]) [(''H'', Float 2), (''O'', Float 1)] ''Fe'' (Float 1)
       = Inl (ErrorNoAtomicWeight ''Fe'')"
proof -
  have h: "map_of [(''H'', Float 2), (''O'', Float 1)] ''Fe'' = None" by simp
  have z: "le_zero (Float 0)" "\<not> le_zero (Float 1)" by (simp_all add: le_zero_def)
  show ?thesis
    using calculate_precondition_failures[where mass = "Float 0"
        and get_atomic_weight = "map_of [(''O'', Float 16)]"
        and composition = "[(''H'', Float 2), (''O'', Float 1)]" and selected_elem = "''O''"]
      calculate_precondition_failures[where mass = "Float 1"
        and get_atomic_weight = "map_of [(''O'', Float 16)]"
        and composition = "[(''H'', Float 2), (''O'', Float 1)]" and selected_elem = "''Fe''"]
      h z
    by simp
qed

text \<open>
  A selected element outside the composition gets the message of an element without
  an atomic weight, the same as a key of the composition that the lookup does not
  know, or the uncaught \<open>KeyError\<close>.
\<close>

theorem unknown_reference_has_no_message:
  "calculate (map_of [(''O'', fl (159994 / 10000))]) [(''H'', Float 2), (''O'', Float 1)]
       ''Fe'' (Float 1)
     = Inl (ErrorNoAtomicWeight ''Fe'')
   \<and> calculate (map_of [(''O'', fl (159994 / 10000))]) [(''H'', Float 2), (''O'', Float 1)]
       ''H'' (Float 1)
     = Inl (ErrorNoAtomicWeight ''H'')
   \<and> calculate (map_of [(''Fe'', fl (55845 / 1000)), (''O'', fl (159994 / 10000))])
        [(''H'', Float 2), (''O'', Float 1)] ''Fe'' (Float 1)
     = Inl (Uncaught (KeyError ''Fe''))"
  by code_simp

text \<open>
  C5 (as amended). With distinct keys, a mass that is not \<open><= 0\<close>, and a selected
  element that has an atomic weight and a coefficient: when the base mass (their float
  product) is a zero, the division raises \<open>ZeroDivisionError\<close> and there is no table;
  otherwise the table has the keys of the composition in their order, and the cell of
  every element with an atomic weight \<open>w\<close> that is not a zero and coefficient \<open>c\<close> is
  the text of \<open>w * c * factor\<close> in float arithmetic, where \<open>factor\<close> is the mass divided
  by the base mass: five decimals for a finite float, and \<open>inf\<close>, \<open>-inf\<close> or \<open>nan\<close> for
  a product that is not finite.
\<close>

theorem calculate_required_masses:
  assumes "distinct (map fst composition)"
    and "\<not> le_zero mass"
    and "get_atomic_weight selected_elem = Some base_weight"
    and "map_of composition selected_elem = Some base_coeff"
  shows "(is_zero (fmul base_weight base_coeff) \<longrightarrow>
      calculate get_atomic_weight composition selected_elem mass =
        Inl (Uncaught ZeroDivisionError))
    \<and> (\<not> is_zero (fmul base_weight base_coeff) \<longrightarrow>
      (\<exists>results.
        calculate get_atomic_weight composition selected_elem mass = Inr results
        \<and> map fst results = map fst composition
        \<and> (\<forall>(elem, coeff) \<in> set composition. \<forall>w.
              get_atomic_weight elem = Some w \<longrightarrow> \<not> is_zero w \<longrightarrow>
              map_of results elem =
                Some (format_5f
                  (fmul (fmul w coeff) (fdiv mass (fmul base_weight base_coeff)))))))"
proof (intro conjI impI)
  assume "is_zero (fmul base_weight base_coeff)"
  with assms(2,3,4) show "calculate get_atomic_weight composition selected_elem mass =
        Inl (Uncaught ZeroDivisionError)"
    by (rule calculate_zero_base)
next
  assume nz: "\<not> is_zero (fmul base_weight base_coeff)"
  let ?f = "result_cell get_atomic_weight (fdiv mass (fmul base_weight base_coeff))"
  let ?r = "map (\<lambda>(elem, coeff). (elem, ?f elem coeff)) composition"
  have "calculate get_atomic_weight composition selected_elem mass = Inr ?r"
    by (rule calculate_results[where get_atomic_weight = get_atomic_weight
        and selected_elem = selected_elem, OF assms nz])
  moreover have "map fst ?r = map fst composition" by (rule map_fst_results)
  moreover have "map_of ?r elem =
      Some (format_5f (fmul (fmul w coeff) (fdiv mass (fmul base_weight base_coeff))))"
    if "(elem, coeff) \<in> set composition" "get_atomic_weight elem = Some w" "\<not> is_zero w"
    for elem coeff w
    using map_of_results[OF assms(1) that(1), of ?f] that(2,3)
    by (simp add: result_cell_def required_mass_def)
  ultimately show "\<exists>results.
        calculate get_atomic_weight composition selected_elem mass = Inr results
        \<and> map fst results = map fst composition
        \<and> (\<forall>(elem, coeff) \<in> set composition. \<forall>w.
              get_atomic_weight elem = Some w \<longrightarrow> \<not> is_zero w \<longrightarrow>
              map_of results elem =
                Some (format_5f
                  (fmul (fmul w coeff) (fdiv mass (fmul base_weight base_coeff)))))"
    by blast
qed

theorem calculate_required_masses_witness:
  "distinct (map fst [(''H'', Float 2), (''O'', Float 1)]) \<and> \<not> le_zero (Float 1)
   \<and> map_of [(''H'', fl (100794 / 100000)), (''O'', fl (159994 / 10000))] ''H''
       = Some (fl (100794 / 100000))
   \<and> map_of [(''H'', Float 2), (''O'', Float 1)] ''H'' = Some (Float 2)
   \<and> \<not> is_zero (fmul (fl (100794 / 100000)) (Float 2))
   \<and> (\<exists>results.
        calculate (map_of [(''H'', fl (100794 / 100000)), (''O'', fl (159994 / 10000))])
          [(''H'', Float 2), (''O'', Float 1)] ''H'' (Float 1) = Inr results
        \<and> map_of results ''O'' = Some (format_5f
             (fmul (fmul (fl (159994 / 10000)) (Float 1))
                (fdiv (Float 1) (fmul (fl (100794 / 100000)) (Float 2))))))
   \<and> distinct (map fst [(''H'', Float 0), (''O'', Float 1)])
   \<and> map_of [(''H'', Float 0), (''O'', Float 1)] ''H'' = Some (Float 0)
   \<and> is_zero (fmul (fl (100794 / 100000)) (Float 0))
   \<and> calculate (map_of [(''H'', fl (100794 / 100000)), (''O'', fl (159994 / 10000))])
        [(''H'', Float 0), (''O'', Float 1)] ''H'' (Float 1)
       = Inl (Uncaught ZeroDivisionError)"
proof -
  let ?g = "map_of [(''H'', fl (100794 / 100000)), (''O'', fl (159994 / 10000))]"
  let ?c = "[(''H'', Float 2), (''O'', Float 1)]"
  let ?z = "[(''H'', Float 0), (''O'', Float 1)]"
  have h1: "distinct (map fst ?c)" by simp
  have h2: "\<not> le_zero (Float 1)" by (simp add: le_zero_def)
  have h3: "?g ''H'' = Some (fl (100794 / 100000))" by simp
  have h4: "map_of ?c ''H'' = Some (Float 2)" by simp
  have h5: "\<not> is_zero (fmul (fl (100794 / 100000)) (Float 2))" by code_simp
  have h6: "?g ''O'' = Some (fl (159994 / 10000))" by simp
  have h7: "\<not> is_zero (fl (159994 / 10000))" by code_simp
  have z1: "distinct (map fst ?z)" by simp
  have z4: "map_of ?z ''H'' = Some (Float 0)" by simp
  have z5: "is_zero (fmul (fl (100794 / 100000)) (Float 0))" by code_simp
  from calculate_required_masses[where get_atomic_weight = ?g and selected_elem = "''H''",
      OF h1 h2 h3 h4] h5
  obtain results where r:
    "calculate ?g ?c ''H'' (Float 1) = Inr results"
    "\<forall>(elem, coeff) \<in> set ?c. \<forall>w. ?g elem = Some w \<longrightarrow> \<not> is_zero w \<longrightarrow>
       map_of results elem = Some (format_5f
         (fmul (fmul w coeff) (fdiv (Float 1) (fmul (fl (100794 / 100000)) (Float 2)))))"
    by blast
  from r(2) have "\<forall>w. ?g ''O'' = Some w \<longrightarrow> \<not> is_zero w \<longrightarrow>
       map_of results ''O'' = Some (format_5f
         (fmul (fmul w (Float 1)) (fdiv (Float 1) (fmul (fl (100794 / 100000)) (Float 2)))))"
    by simp
  with h6 h7 have "map_of results ''O'' = Some (format_5f
         (fmul (fmul (fl (159994 / 10000)) (Float 1))
            (fdiv (Float 1) (fmul (fl (100794 / 100000)) (Float 2)))))"
    by blast
  with r(1) have a: "\<exists>results.
        calculate ?g ?c ''H'' (Float 1) = Inr results
        \<and> map_of results ''O'' = Some (format_5f
             (fmul (fmul (fl (159994 / 10000)) (Float 1))
                (fdiv (Float 1) (fmul (fl (100794 / 100000)) (Float 2)))))"
    by blast
  from calculate_required_masses[where get_atomic_weight = ?g and selected_elem = "''H''",
      OF z1 h2 h3 z4] z5
  have b: "calculate ?g ?z ''H'' (Float 1) = Inl (Uncaught ZeroDivisionError)" by blast
  show ?thesis
    apply (intro conjI)
             apply (rule h1)
            apply (rule h2)
           apply (rule h3)
          apply (rule h4)
         apply (rule h5)
        apply (rule a)
       apply (rule z1)
      apply (rule z4)
     apply (rule z5)
    apply (rule b)
    done
qed

text \<open>
  The formula \<open>Fe0O\<close> parses with the coefficient 0 for \<open>Fe\<close>; selecting \<open>Fe\<close> makes the
  base mass zero, and the division raises \<open>ZeroDivisionError\<close>: no table is produced.
\<close>

theorem zero_coefficient_division:
  "parse_formula ''Fe0O'' = Inr [(''Fe'', Float 0), (''O'', Float 1)]
   \<and> calculate (map_of [(''Fe'', fl (55845 / 1000)), (''O'', fl (159994 / 10000))])
        [(''Fe'', Float 0), (''O'', Float 1)] ''Fe'' (Float 1)
     = Inl (Uncaught ZeroDivisionError)"
  by code_simp

text \<open>
  C8 (as amended). With a mass that is not \<open><= 0\<close>, a selected element without an
  atomic weight ends the handler in the no-atomic-weight message. When the selected
  element has an atomic weight and a coefficient, a base mass that is a zero ends the
  handler in \<open>ZeroDivisionError\<close>; with a base mass that is not a zero (and distinct
  keys) the handler returns the table: the cell of an element for which the lookup has
  no atomic weight, or a zero, says so, and the cell of any other element is the text
  of its required mass in float arithmetic.
\<close>

theorem missing_atomic_weight:
  "(\<not> le_zero mass \<longrightarrow> get_atomic_weight selected_elem = None \<longrightarrow>
      calculate get_atomic_weight composition selected_elem mass =
        Inl (ErrorNoAtomicWeight selected_elem))
   \<and> (\<not> le_zero mass \<longrightarrow>
       get_atomic_weight selected_elem = Some base_weight \<longrightarrow>
       map_of composition selected_elem = Some base_coeff \<longrightarrow>
       is_zero (fmul base_weight base_coeff) \<longrightarrow>
       calculate get_atomic_weight composition selected_elem mass =
         Inl (Uncaught ZeroDivisionError))
   \<and> (distinct (map fst composition) \<longrightarrow> \<not> le_zero mass \<longrightarrow>
       get_atomic_weight selected_elem = Some base_weight \<longrightarrow>
       map_of composition selected_elem = Some base_coeff \<longrightarrow>
       \<not> is_zero (fmul base_weight base_coeff) \<longrightarrow>
       (\<exists>results.
          calculate get_atomic_weight composition selected_elem mass = Inr results
          \<and> map fst results = map fst composition
          \<and> (\<forall>(elem, coeff) \<in> set composition.
                map_of results elem =
                  Some (case get_atomic_weight elem of
                          None \<Rightarrow> NoAtomicWeightInfo
                        | Some w \<Rightarrow>
                            if is_zero w then NoAtomicWeightInfo
                            else format_5f
                              (fmul (fmul w coeff)
                                 (fdiv mass (fmul base_weight base_coeff)))))))"
proof (intro conjI impI)
  assume "\<not> le_zero mass" "get_atomic_weight selected_elem = None"
  then show "calculate get_atomic_weight composition selected_elem mass =
        Inl (ErrorNoAtomicWeight selected_elem)"
    by (simp add: calculate_def)
next
  assume "\<not> le_zero mass" "get_atomic_weight selected_elem = Some base_weight"
    "map_of composition selected_elem = Some base_coeff"
    "is_zero (fmul base_weight base_coeff)"
  then show "calculate get_atomic_weight composition selected_elem mass =
         Inl (Uncaught ZeroDivisionError)"
    by (rule calculate_zero_base)
next
  assume a: "distinct (map fst composition)" "\<not> le_zero mass"
    "get_atomic_weight selected_elem = Some base_weight"
    "map_of composition selected_elem = Some base_coeff"
    "\<not> is_zero (fmul base_weight base_coeff)"
  let ?f = "result_cell get_atomic_weight (fdiv mass (fmul base_weight base_coeff))"
  let ?r = "map (\<lambda>(elem, coeff). (elem, ?f elem coeff)) composition"
  have "calculate get_atomic_weight composition selected_elem mass = Inr ?r"
    by (rule calculate_results[where get_atomic_weight = get_atomic_weight
        and selected_elem = selected_elem, OF a])
  moreover have "map fst ?r = map fst composition" by (rule map_fst_results)
  moreover have "map_of ?r elem =
      Some (case get_atomic_weight elem of
              None \<Rightarrow> NoAtomicWeightInfo
            | Some w \<Rightarrow>
                if is_zero w then NoAtomicWeightInfo
                else format_5f (fmul (fmul w coeff) (fdiv mass (fmul base_weight base_coeff))))"
    if "(elem, coeff) \<in> set composition" for elem coeff
    using map_of_results[OF a(1) that, of ?f]
    by (auto simp: result_cell_def required_mass_def split: option.splits)
  ultimately show "\<exists>results.
          calculate get_atomic_weight composition selected_elem mass = Inr results
          \<and> map fst results = map fst composition
          \<and> (\<forall>(elem, coeff) \<in> set composition.
                map_of results elem =
                  Some (case get_atomic_weight elem of
                          None \<Rightarrow> NoAtomicWeightInfo
                        | Some w \<Rightarrow>
                            if is_zero w then NoAtomicWeightInfo
                            else format_5f
                              (fmul (fmul w coeff)
                                 (fdiv mass (fmul base_weight base_coeff)))))"
    by blast
qed

theorem missing_atomic_weight_witness:
  "\<not> le_zero (Float 1)
   \<and> map_of [(''O'', fl (159994 / 10000))] ''H'' = None
   \<and> calculate (map_of [(''O'', fl (159994 / 10000))]) [(''H'', Float 2), (''O'', Float 1)]
        ''H'' (Float 1)
       = Inl (ErrorNoAtomicWeight ''H'')
   \<and> distinct (map fst [(''H'', Float 2), (''O'', Float 1)])
   \<and> map_of [(''O'', fl (159994 / 10000))] ''O'' = Some (fl (159994 / 10000))
   \<and> map_of [(''H'', Float 2), (''O'', Float 1)] ''O'' = Some (Float 1)
   \<and> \<not> is_zero (fmul (fl (159994 / 10000)) (Float 1))
   \<and> (\<exists>results.
        calculate (map_of [(''O'', fl (159994 / 10000))]) [(''H'', Float 2), (''O'', Float 1)]
          ''O'' (Float 1)
          = Inr results
        \<and> map_of results ''H'' = Some NoAtomicWeightInfo
        \<and> map_of results ''O'' = Some (format_5f
             (fmul (fmul (fl (159994 / 10000)) (Float 1))
                (fdiv (Float 1) (fmul (fl (159994 / 10000)) (Float 1))))))
   \<and> map_of [(''H'', Float 2), (''O'', Float 0)] ''O'' = Some (Float 0)
   \<and> is_zero (fmul (fl (159994 / 10000)) (Float 0))
   \<and> calculate (map_of [(''O'', fl (159994 / 10000))]) [(''H'', Float 2), (''O'', Float 0)]
        ''O'' (Float 1)
       = Inl (Uncaught ZeroDivisionError)"
proof -
  let ?w = "fl (159994 / 10000)"
  let ?g = "map_of [(''O'', ?w)]"
  let ?c = "[(''H'', Float 2), (''O'', Float 1)]"
  let ?z = "[(''H'', Float 2), (''O'', Float 0)]"
  have z4: "map_of ?z ''O'' = Some (Float 0)" by simp
  have z5: "is_zero (fmul ?w (Float 0))" by code_simp
  have h1: "distinct (map fst ?c)" by simp
  have h2: "\<not> le_zero (Float 1)" by (simp add: le_zero_def)
  have h3: "?g ''O'' = Some ?w" by simp
  have h4: "map_of ?c ''O'' = Some (Float 1)" by simp
  have h5: "\<not> is_zero (fmul ?w (Float 1))" by code_simp
  have h6: "?g ''H'' = None" by simp
  have h7: "\<not> is_zero ?w" by code_simp
  note t = missing_atomic_weight[where get_atomic_weight = ?g and composition = ?c
      and mass = "Float 1" and base_weight = ?w and base_coeff = "Float 1"]
  from t[where selected_elem = "''H''"] h2 h6
  have a: "calculate ?g ?c ''H'' (Float 1) = Inl (ErrorNoAtomicWeight ''H'')" by blast
  from t[where selected_elem = "''O''"] h1 h2 h3 h4 h5
  obtain results where r: "calculate ?g ?c ''O'' (Float 1) = Inr results"
    "\<forall>(elem, coeff) \<in> set ?c. map_of results elem =
       Some (case ?g elem of None \<Rightarrow> NoAtomicWeightInfo
             | Some w \<Rightarrow> if is_zero w then NoAtomicWeightInfo
                 else format_5f (fmul (fmul w coeff) (fdiv (Float 1) (fmul ?w (Float 1)))))"
    by blast
  from r(2) h7 have "map_of results ''H'' = Some NoAtomicWeightInfo"
    "map_of results ''O'' = Some (format_5f
       (fmul (fmul ?w (Float 1)) (fdiv (Float 1) (fmul ?w (Float 1)))))"
    by simp_all
  with r(1) have b: "\<exists>results.
        calculate ?g ?c ''O'' (Float 1) = Inr results
        \<and> map_of results ''H'' = Some NoAtomicWeightInfo
        \<and> map_of results ''O'' = Some (format_5f
             (fmul (fmul ?w (Float 1)) (fdiv (Float 1) (fmul ?w (Float 1)))))"
    by blast
  from missing_atomic_weight[where get_atomic_weight = ?g and composition = ?z
      and mass = "Float 1" and base_weight = ?w and base_coeff = "Float 0"
      and selected_elem = "''O''"] h2 h3 z4 z5
  have c: "calculate ?g ?z ''O'' (Float 1) = Inl (Uncaught ZeroDivisionError)" by blast
  show ?thesis
    apply (intro conjI)
              apply (rule h2)
             apply (rule h6)
            apply (rule a)
           apply (rule h1)
          apply (rule h3)
         apply (rule h4)
        apply (rule h5)
       apply (rule b)
      apply (rule z4)
     apply (rule z5)
    apply (rule c)
    done
qed

text \<open>
  In \<open>Fe0OA\<close> the lookup has no atomic weight for \<open>A\<close>; with \<open>Fe\<close> selected the base
  mass is zero and the handler ends in \<open>ZeroDivisionError\<close>: no cell is marked, and no
  element gets a required mass.
\<close>

theorem zero_base_mass_aborts:
  "parse_formula ''Fe0OA'' = Inr [(''Fe'', Float 0), (''O'', Float 1), (''A'', Float 1)]
   \<and> map_of [(''Fe'', fl (55845 / 1000)), (''O'', fl (159994 / 10000))] ''A'' = None
   \<and> calculate (map_of [(''Fe'', fl (55845 / 1000)), (''O'', fl (159994 / 10000))])
        [(''Fe'', Float 0), (''O'', Float 1), (''A'', Float 1)] ''Fe'' (Float 1)
     = Inl (Uncaught ZeroDivisionError)"
  by code_simp

section \<open>The reference element and the scaling of the table\<close>

text \<open>
  C10 (as amended). With distinct keys, a positive finite mass and a selected element
  whose atomic weight and coefficient have a finite float product, the base mass: when
  the factor is a finite float and neither the division nor the last multiplication
  overflows or underflows (the exact quotient \<open>mass / base_mass\<close> and the exact product
  \<open>base_mass * factor\<close> are in the range of the normal floats), the handler returns the
  table, the cell of the selected element is the text of its required mass, and that
  required mass is a finite float that differs from the given mass by at most
  \<open>3 * mass / 2^53\<close>: the factor and the product are each rounded to a float.
\<close>

theorem reference_mass_up_to_rounding:
  assumes "distinct (map fst composition)"
    and "0 < mass"
    and "get_atomic_weight selected_elem = Some base_weight"
    and "map_of composition selected_elem = Some base_coeff"
    and "fmul base_weight base_coeff = Float base_mass"
    and "fdiv (Float mass) (Float base_mass) = Float factor"
    and "in_range (mass / base_mass)"
    and "in_range (base_mass * factor)"
  shows "\<exists>results r.
    calculate get_atomic_weight composition selected_elem (Float mass) = Inr results
    \<and> required_mass base_weight base_coeff (Float factor) = Float r
    \<and> map_of results selected_elem = Some (format_5f (Float r))
    \<and> \<bar>r - mass\<bar> \<le> 3 * mass / 2 ^ 53"
proof -
  have bnz: "base_mass \<noteq> 0" using in_range_nonzero[OF assms(7)] by auto
  have nle: "\<not> le_zero (Float mass)" using assms(2) by (simp add: le_zero_Float)
  have bz: "\<not> is_zero (fmul base_weight base_coeff)"
    using bnz by (simp add: assms(5) is_zero_Float)
  have wz: "\<not> is_zero base_weight"
    using fmul_zero_left[OF _ assms(5)] bnz by blast
  let ?f = "result_cell get_atomic_weight (Float factor)"
  let ?r = "map (\<lambda>(elem, coeff). (elem, ?f elem coeff)) composition"
  have c: "calculate get_atomic_weight composition selected_elem (Float mass) = Inr ?r"
    using calculate_results[where get_atomic_weight = get_atomic_weight
          and selected_elem = selected_elem, OF assms(1) nle assms(3,4) bz]
    by (simp add: assms(5,6))
  have mem: "(selected_elem, base_coeff) \<in> set composition"
    using assms(4) by (rule map_of_SomeD)
  from scaled_error[OF assms(6,7,8)]
  obtain r where r: "fmul (Float base_mass) (Float factor) = Float r"
    "\<bar>r - base_mass * (mass / base_mass)\<bar> \<le> 3 * \<bar>base_mass * (mass / base_mass)\<bar> / 2 ^ 53"
    by blast
  have req: "required_mass base_weight base_coeff (Float factor) = Float r"
    by (simp add: required_mass_def assms(5) r(1))
  have cell: "map_of ?r selected_elem = Some (format_5f (Float r))"
    using map_of_results[OF assms(1) mem, of ?f] assms(3) wz
    by (simp add: result_cell_def req)
  have "base_mass * (mass / base_mass) = mass" using bnz by simp
  with r(2) have err: "\<bar>r - mass\<bar> \<le> 3 * mass / 2 ^ 53"
    using assms(2) by simp
  from c req cell err show ?thesis by blast
qed

theorem reference_mass_up_to_rounding_witness:
  "distinct (map fst [(''Na'', Float 1), (''Cl'', Float 1)]) \<and> (0::rat) < 1
   \<and> map_of [(''Na'', fl (2298977 / 100000)), (''Cl'', fl (35453 / 1000))] ''Cl''
       = Some (fl (35453 / 1000))
   \<and> map_of [(''Na'', Float 1), (''Cl'', Float 1)] ''Cl'' = Some (Float 1)
   \<and> fmul (fl (35453 / 1000)) (Float 1) = Float (1247391543665361 / 35184372088832)
   \<and> fdiv (Float 1) (Float (1247391543665361 / 35184372088832))
       = Float (1016241136686993 / 36028797018963968)
   \<and> in_range (1 / (1247391543665361 / 35184372088832))
   \<and> in_range (1247391543665361 / 35184372088832 * (1016241136686993 / 36028797018963968))
   \<and> (\<exists>results r.
        calculate (map_of [(''Na'', fl (2298977 / 100000)), (''Cl'', fl (35453 / 1000))])
          [(''Na'', Float 1), (''Cl'', Float 1)] ''Cl'' (Float 1) = Inr results
        \<and> required_mass (fl (35453 / 1000)) (Float 1)
            (Float (1016241136686993 / 36028797018963968)) = Float r
        \<and> map_of results ''Cl'' = Some (format_5f (Float r))
        \<and> \<bar>r - 1\<bar> \<le> 3 * 1 / 2 ^ 53)"
proof -
  let ?g = "map_of [(''Na'', fl (2298977 / 100000)), (''Cl'', fl (35453 / 1000))]"
  let ?c = "[(''Na'', Float 1), (''Cl'', Float 1)]"
  have h1: "distinct (map fst ?c)" by simp
  have h2: "(0::rat) < 1" by simp
  have h3: "?g ''Cl'' = Some (fl (35453 / 1000))" by simp
  have h4: "map_of ?c ''Cl'' = Some (Float 1)" by simp
  have h5: "fmul (fl (35453 / 1000)) (Float 1) = Float (1247391543665361 / 35184372088832)"
    by code_simp
  have h6: "fdiv (Float 1) (Float (1247391543665361 / 35184372088832))
       = Float (1016241136686993 / 36028797018963968)"
    by code_simp
  have h7: "in_range (1 / (1247391543665361 / 35184372088832))"
    by code_simp
  have h8: "in_range (1247391543665361 / 35184372088832
      * (1016241136686993 / 36028797018963968))"
    by code_simp
  note t = reference_mass_up_to_rounding[where get_atomic_weight = ?g
      and selected_elem = "''Cl''", OF h1 h2 h3 h4 h5 h6 h7 h8]
  show ?thesis
    apply (intro conjI)
            apply (rule h1)
           apply (rule h2)
          apply (rule h3)
         apply (rule h4)
        apply (rule h5)
       apply (rule h6)
      apply (rule h7)
     apply (rule h8)
    apply (rule t)
    done
qed

text \<open>
  For \<open>NaCl\<close> with \<open>Cl\<close> selected, the atomic weight 35.453 and the mass 1.0, the
  required mass of \<open>Cl\<close> before formatting is \<open>1 - 2^-53\<close>, which Python prints as
  \<open>0.9999999999999999\<close>.
\<close>

theorem reference_mass_not_exact:
  "parse_formula ''NaCl'' = Inr [(''Na'', Float 1), (''Cl'', Float 1)]
   \<and> required_mass (fl (35453 / 1000)) (Float 1)
        (fdiv (Float 1) (fmul (fl (35453 / 1000)) (Float 1)))
       = Float (9007199254740991 / 9007199254740992)
   \<and> (9007199254740991 / 9007199254740992 :: rat) \<noteq> 1"
proof -
  have p: "parse_formula ''NaCl'' = Inr [(''Na'', Float 1), (''Cl'', Float 1)]"
    by code_simp
  have r: "required_mass (fl (35453 / 1000)) (Float 1)
        (fdiv (Float 1) (fmul (fl (35453 / 1000)) (Float 1)))
      = Float (9007199254740991 / 9007199254740992)"
    by code_simp
  have n: "(9007199254740991 / 9007199254740992 :: rat) \<noteq> 1"
    by simp
  from p r n show ?thesis by (intro conjI)
qed

text \<open>
  C6 (as amended). With distinct keys, a selected element whose atomic weight and
  coefficient have a finite float product, the base mass, and a positive \<open>k\<close>: when
  the factors for the masses 1 and \<open>k\<close> are finite floats and, for an element of the
  composition whose atomic weight times coefficient is the finite float \<open>a\<close>, none of
  the two divisions and the two multiplications by the factors overflows or underflows
  (the exact quotients and products are in the range of the normal floats), the handler
  returns a table for the mass 1 and for the mass \<open>k\<close>, the two cells of the element
  show numbers \<open>x1\<close> and \<open>xk\<close>, and
  \<open>|xk - k * x1| \<le> (k + 1) / 200000 + 6 * k * |a / base_mass| / 2^53\<close>:
  each cell is rounded to five decimals, and each factor and product to a float.
\<close>

theorem results_scale_up_to_rounding:
  assumes "distinct (map fst composition)"
    and "0 < k"
    and "get_atomic_weight selected_elem = Some base_weight"
    and "map_of composition selected_elem = Some base_coeff"
    and "fmul base_weight base_coeff = Float base_mass"
    and "fdiv (Float 1) (Float base_mass) = Float factor1"
    and "in_range (1 / base_mass)"
    and "fdiv (Float k) (Float base_mass) = Float factork"
    and "in_range (k / base_mass)"
    and "(elem, coeff) \<in> set composition"
    and "get_atomic_weight elem = Some w"
    and "fmul w coeff = Float a"
    and "in_range (a * factor1)"
    and "in_range (a * factork)"
  shows "\<exists>r1 rk c1 ck x1 xk.
    calculate get_atomic_weight composition selected_elem (Float 1) = Inr r1
    \<and> calculate get_atomic_weight composition selected_elem (Float k) = Inr rk
    \<and> map_of r1 elem = Some c1 \<and> shown_value c1 = Some x1
    \<and> map_of rk elem = Some ck \<and> shown_value ck = Some xk
    \<and> \<bar>xk - k * x1\<bar> \<le> (k + 1) / 200000 + 6 * k * \<bar>a / base_mass\<bar> / 2 ^ 53"
proof -
  define R where "R = a / base_mass"
  have bnz: "base_mass \<noteq> 0" using in_range_nonzero[OF assms(7)] by auto
  have bz: "\<not> is_zero (fmul base_weight base_coeff)"
    using bnz by (simp add: assms(5) is_zero_Float)
  have anz: "a \<noteq> 0" using in_range_nonzero[OF assms(13)] by auto
  have wz: "\<not> is_zero w"
    using fmul_zero_left[OF _ assms(12)] anz by blast
  let ?f = "\<lambda>q. result_cell get_atomic_weight (Float q)"
  let ?r = "\<lambda>q. map (\<lambda>(elem, coeff). (elem, ?f q elem coeff)) composition"
  have calc: "calculate get_atomic_weight composition selected_elem (Float m) = Inr (?r q)"
    if "0 < m" "fdiv (Float m) (Float base_mass) = Float q" for m q
  proof -
    have nle: "\<not> le_zero (Float m)" using that(1) by (simp add: le_zero_Float)
    show ?thesis
      using calculate_results[where get_atomic_weight = get_atomic_weight
          and selected_elem = selected_elem, OF assms(1) nle assms(3,4) bz]
      by (simp add: assms(5) that(2))
  qed
  have cell: "map_of (?r q) elem = Some (format_5f (fmul (Float a) (Float q)))" for q
    using map_of_results[OF assms(1,10), of "?f q"] assms(11) wz
    by (simp add: result_cell_def required_mass_def assms(12))
  from shown_error[OF assms(8,9,14)]
  obtain xk where xk: "shown_value (format_5f (fmul (Float a) (Float factork))) = Some xk"
    "\<bar>xk - k * R\<bar> \<le> 1 / 200000 + 3 * \<bar>k * R\<bar> / 2 ^ 53"
    unfolding R_def by blast
  from shown_error[OF assms(6,7,13)]
  obtain x1 where x1: "shown_value (format_5f (fmul (Float a) (Float factor1))) = Some x1"
    "\<bar>x1 - R\<bar> \<le> 1 / 200000 + 3 * \<bar>R\<bar> / 2 ^ 53"
    unfolding R_def by auto
  have kR: "\<bar>k * R\<bar> = k * \<bar>R\<bar>" using assms(2) by (simp add: abs_mult)
  have "\<bar>k * x1 - k * R\<bar> = k * \<bar>x1 - R\<bar>"
    using assms(2) by (simp add: abs_mult right_diff_distrib[symmetric])
  also have "\<dots> \<le> k * (1 / 200000 + 3 * \<bar>R\<bar> / 2 ^ 53)"
    using x1(2) assms(2) by (intro mult_left_mono) simp_all
  finally have e1k: "\<bar>k * x1 - k * R\<bar> \<le> k / 200000 + 3 * (k * \<bar>R\<bar>) / 2 ^ 53"
    by (simp add: algebra_simps)
  have tri: "\<bar>xk - k * x1\<bar> \<le> \<bar>xk - k * R\<bar> + \<bar>k * x1 - k * R\<bar>" by linarith
  have lin: "d \<le> (k + 1) / 200000 + 6 * a / 2 ^ 53"
    if "d \<le> p + q" "p \<le> 1 / 200000 + 3 * a / 2 ^ 53" "q \<le> k / 200000 + 3 * a / 2 ^ 53"
    for d p q a :: rat
    using that by (simp add: add_divide_distrib)
  have "\<bar>xk - k * x1\<bar> \<le> (k + 1) / 200000 + 6 * (k * \<bar>R\<bar>) / 2 ^ 53"
    by (rule lin[OF tri xk(2)[unfolded kR] e1k])
  then have bound: "\<bar>xk - k * x1\<bar>
      \<le> (k + 1) / 200000 + 6 * k * \<bar>a / base_mass\<bar> / 2 ^ 53"
    by (simp add: R_def mult.assoc)
  have one: "(0::rat) < 1" by simp
  from calc[OF one assms(6)] calc[OF assms(2,8)] cell[of factor1] cell[of factork]
    x1(1) xk(1) bound
  show ?thesis by blast
qed

theorem results_scale_up_to_rounding_witness:
  "distinct (map fst [(''H'', Float 2), (''O'', Float 1)]) \<and> (0::rat) < 2
   \<and> map_of [(''H'', fl (100794 / 100000)), (''O'', fl (159994 / 10000))] ''H''
       = Some (fl (100794 / 100000))
   \<and> map_of [(''H'', Float 2), (''O'', Float 1)] ''H'' = Some (Float 2)
   \<and> fmul (fl (100794 / 100000)) (Float 2) = Float (2269679104205909 / 1125899906842624)
   \<and> fdiv (Float 1) (Float (2269679104205909 / 1125899906842624))
       = Float (558515341608937 / 1125899906842624)
   \<and> in_range (1 / (2269679104205909 / 1125899906842624))
   \<and> fdiv (Float 2) (Float (2269679104205909 / 1125899906842624))
       = Float (558515341608937 / 562949953421312)
   \<and> in_range (2 / (2269679104205909 / 1125899906842624))
   \<and> (''O'', Float 1) \<in> set [(''H'', Float 2), (''O'', Float 1)]
   \<and> map_of [(''H'', fl (100794 / 100000)), (''O'', fl (159994 / 10000))] ''O''
       = Some (fl (159994 / 10000))
   \<and> fmul (fl (159994 / 10000)) (Float 1) = Float (9006861484768939 / 562949953421312)
   \<and> in_range (9006861484768939 / 562949953421312 * (558515341608937 / 1125899906842624))
   \<and> in_range (9006861484768939 / 562949953421312 * (558515341608937 / 562949953421312))
   \<and> (\<exists>r1 rk c1 ck x1 xk.
        calculate (map_of [(''H'', fl (100794 / 100000)), (''O'', fl (159994 / 10000))])
          [(''H'', Float 2), (''O'', Float 1)] ''H'' (Float 1) = Inr r1
        \<and> calculate (map_of [(''H'', fl (100794 / 100000)), (''O'', fl (159994 / 10000))])
          [(''H'', Float 2), (''O'', Float 1)] ''H'' (Float 2) = Inr rk
        \<and> map_of r1 ''O'' = Some c1 \<and> shown_value c1 = Some x1
        \<and> map_of rk ''O'' = Some ck \<and> shown_value ck = Some xk
        \<and> \<bar>xk - 2 * x1\<bar>
            \<le> (2 + 1) / 200000
              + 6 * 2 * \<bar>9006861484768939 / 562949953421312
                        / (2269679104205909 / 1125899906842624)\<bar> / 2 ^ 53)"
proof -
  let ?g = "map_of [(''H'', fl (100794 / 100000)), (''O'', fl (159994 / 10000))]"
  let ?c = "[(''H'', Float 2), (''O'', Float 1)]"
  have h1: "distinct (map fst ?c)" by simp
  have h2: "(0::rat) < 2" by simp
  have h3: "?g ''H'' = Some (fl (100794 / 100000))" by simp
  have h4: "map_of ?c ''H'' = Some (Float 2)" by simp
  have h5: "fmul (fl (100794 / 100000)) (Float 2) = Float (2269679104205909 / 1125899906842624)"
    by code_simp
  have h6: "fdiv (Float 1) (Float (2269679104205909 / 1125899906842624))
       = Float (558515341608937 / 1125899906842624)"
    by code_simp
  have h7: "in_range (1 / (2269679104205909 / 1125899906842624))"
    by code_simp
  have h8: "fdiv (Float 2) (Float (2269679104205909 / 1125899906842624))
       = Float (558515341608937 / 562949953421312)"
    by code_simp
  have h9: "in_range (2 / (2269679104205909 / 1125899906842624))"
    by code_simp
  have h10: "(''O'', Float 1) \<in> set ?c" by simp
  have h11: "?g ''O'' = Some (fl (159994 / 10000))" by simp
  have h12: "fmul (fl (159994 / 10000)) (Float 1) = Float (9006861484768939 / 562949953421312)"
    by code_simp
  have h13: "in_range (9006861484768939 / 562949953421312
      * (558515341608937 / 1125899906842624))"
    by code_simp
  have h14: "in_range (9006861484768939 / 562949953421312
      * (558515341608937 / 562949953421312))"
    by code_simp
  note t = results_scale_up_to_rounding[where get_atomic_weight = ?g
      and selected_elem = "''H''" and elem = "''O''",
      OF h1 h2 h3 h4 h5 h6 h7 h8 h9 h10 h11 h12 h13 h14]
  show ?thesis
    apply (intro conjI)
                  apply (rule h1)
                 apply (rule h2)
                apply (rule h3)
               apply (rule h4)
              apply (rule h5)
             apply (rule h6)
            apply (rule h7)
           apply (rule h8)
          apply (rule h9)
         apply (rule h10)
        apply (rule h11)
       apply (rule h12)
      apply (rule h13)
     apply (rule h14)
    apply (rule t)
    done
qed

text \<open>
  For \<open>H2O\<close> with \<open>H\<close> selected and the atomic weights 1.00794 and 15.9994, the cell of
  \<open>O\<close> is \<open>7.93668\<close> for the mass 1 and \<open>15.87337\<close> for the mass 2, which is not twice
  \<open>7.93668\<close>.
\<close>

theorem results_not_proportional:
  "calculate (map_of [(''H'', fl (100794 / 100000)), (''O'', fl (159994 / 10000))])
     [(''H'', Float 2), (''O'', Float 1)] ''H'' (Float 1)
     = Inr [(''H'', Text5f 1), (''O'', Text5f (793668 / 100000))]
   \<and> calculate (map_of [(''H'', fl (100794 / 100000)), (''O'', fl (159994 / 10000))])
     [(''H'', Float 2), (''O'', Float 1)] ''H'' (Float 2)
     = Inr [(''H'', Text5f 2), (''O'', Text5f (1587337 / 100000))]
   \<and> (1587337 / 100000 :: rat) \<noteq> 2 * (793668 / 100000)"
proof -
  have wH: "fl (100794 / 100000) = Float (2269679104205909 / 2251799813685248)"
    by code_simp
  have wO: "fl (159994 / 10000) = Float (9006861484768939 / 562949953421312)"
    by code_simp
  have b: "fmul (Float (2269679104205909 / 2251799813685248)) (Float 2)
      = Float (2269679104205909 / 1125899906842624)"
    by code_simp
  have f1: "fdiv (Float 1) (Float (2269679104205909 / 1125899906842624))
      = Float (558515341608937 / 1125899906842624)"
    by code_simp
  have f2: "fdiv (Float 2) (Float (2269679104205909 / 1125899906842624))
      = Float (558515341608937 / 562949953421312)"
    by code_simp
  have h1: "format_5f (fmul (Float (2269679104205909 / 1125899906842624))
              (Float (558515341608937 / 1125899906842624))) = Text5f 1"
    by code_simp
  have h2: "format_5f (fmul (Float (2269679104205909 / 1125899906842624))
              (Float (558515341608937 / 562949953421312))) = Text5f 2"
    by code_simp
  have o: "fmul (Float (9006861484768939 / 562949953421312)) (Float 1)
      = Float (9006861484768939 / 562949953421312)"
    by code_simp
  have o1: "format_5f (fmul (Float (9006861484768939 / 562949953421312))
              (Float (558515341608937 / 1125899906842624))) = Text5f (793668 / 100000)"
    by code_simp
  have o2: "format_5f (fmul (Float (9006861484768939 / 562949953421312))
              (Float (558515341608937 / 562949953421312))) = Text5f (1587337 / 100000)"
    by code_simp
  show ?thesis
    unfolding wH wO calculate_def result_cell_def required_mass_def
    by (simp add: b f1 f2 h1 h2 o o1 o2 le_zero_def is_zero_def)
qed

end
